theory Spec2Isabelle
  imports Main "HOL-Library.Word" "HOL-Library.Multiset"
begin

section \<open>Data model of \<open>src/App.tsx\<close>\<close>

text \<open>
  The TypeScript types of the source. A JavaScript string is modelled as a \<open>string\<close>
  (one \<open>char\<close> per code unit; every literal of the source fits in eight bits), a
  count as a \<open>nat\<close>, an optional field or an \<open>undefined\<close> result as an
  \<open>option\<close>. The field \<open>id\<close> of \<open>User\<close> is written \<open>id'\<close>, the fields of
  \<open>Nomination\<close> carry the prefix \<open>nom_\<close>: HOL already has \<open>id\<close>, and two records
  of one theory cannot share a field name.
\<close>

datatype Role = Integrante | Jefatura | Gerente | Admin | Asistente

datatype Team = Desarrollo | Operaciones | Analitica | PO | GTI

record User =
  id' :: string
  name :: string
  role :: Role
  title :: string
  team :: Team
  photo :: "string option"

record Nomination =
  nom_id :: string
  nom_candidateId :: string
  nom_projectId :: string
  nom_reason :: string
  nom_nominatedByUserId :: string

record Vote =
  voterId :: string
  picks :: "string list"

text \<open>
  \<open>votes\<close> is declared a number, but \<open>computeResults\<close> fills it from an object used
  as a dictionary, and for a candidate id that is the name of a member of
  \<open>Object.prototype\<close> the value it stores is a string (see \<open>bump\<close> below). A
  \<open>Tally\<close> is such a value: \<open>Count n\<close> is the number \<open>n\<close>, and \<open>Inherited m k\<close> is
  the string made of the source text of the native function \<open>Object.prototype[m]\<close>
  followed by \<open>k\<close> characters \<open>1\<close>. The language fixes only the shape of that source
  text, which begins with the word \<open>function\<close>; so the string is no numeral, and its
  conversion to a number is \<open>NaN\<close>.
\<close>

datatype Tally = Count nat | Inherited string nat

record ResultRow =
  candidateId :: string
  votes :: Tally
  days :: nat

section \<open>Schedule status\<close>

text \<open>
  \<open>HTML_ENTITIES\<close> is the object literal of the source, read as a lookup table;
  \<open>sanitizeText\<close> is \<open>text.replace(/[<>"'&]/g, (match) => HTML_ENTITIES[match] || match)\<close>:
  every code unit of the character class is replaced, the others are kept.
  \<open>CHR 0x22\<close> is the double quote and \<open>CHR 0x27\<close> the apostrophe.
\<close>

definition HTML_ENTITIES :: "char \<Rightarrow> string option" where
  "HTML_ENTITIES c =
     (if c = CHR ''<'' then Some ''&lt;''
      else if c = CHR ''>'' then Some ''&gt;''
      else if c = CHR 0x22 then Some ''&quot;''
      else if c = CHR 0x27 then Some ''&#x27;''
      else if c = CHR ''&'' then Some ''&amp;''
      else None)"

definition html_special :: "char \<Rightarrow> bool" where
  "html_special c = (c = CHR ''<'' \<or> c = CHR ''>'' \<or> c = CHR 0x22 \<or> c = CHR 0x27 \<or> c = CHR ''&'')"

definition replace_match :: "char \<Rightarrow> string" where
  "replace_match c = (case HTML_ENTITIES c of Some e \<Rightarrow> (if e = [] then [c] else e) | None \<Rightarrow> [c])"

definition sanitizeText :: "string \<Rightarrow> string" where
  "sanitizeText str = concat (map (\<lambda>c. if html_special c then replace_match c else [c]) str)"

record Status =
  message :: string
  isError :: bool

text \<open>
  \<open>if (error)\<close> tests the truthiness of a string: every string but the empty one.
\<close>

definition getScheduleStatus :: "int \<Rightarrow> int \<Rightarrow> string \<Rightarrow> Status" where
  "getScheduleStatus selectedDays targetDays error =
     (if error \<noteq> [] then \<lparr>message = sanitizeText error, isError = True\<rparr>
      else if selectedDays = targetDays then \<lparr>message = ''Listo para programar'', isError = False\<rparr>
      else \<lparr>message = ''Selecciona las fechas requeridas'', isError = False\<rparr>)"

section \<open>The environment of the vote count\<close>

text \<open>
  \<open>computeResults\<close> reads three arrays, calls \<open>randomInt\<close> and, through
  \<open>findGerenteId\<close>, reads and writes the module-level \<open>GERENTE_CACHE\<close>, a \<open>Map\<close>
  whose keys are roster arrays compared by identity. The model therefore passes arrays
  by reference: a \<open>ref\<close> is the identity of an array, the \<open>World\<close> holds the contents
  of every array, the cache and the random source. A cached \<open>undefined\<close> is
  \<open>Some None\<close>; a roster that was never looked up is \<open>None\<close>.

  \<open>engine_sort\<close> is the order in which the engine's \<open>Array.prototype.sort\<close> leaves the
  rows when the comparator of \<open>computeResults\<close> is not a consistent comparison of
  them: the language leaves that order to the implementation, so it is a parameter of
  the world, about which nothing is assumed.

  \<open>entropy\<close> is the sequence of 32-bit values that successive calls of
  \<open>crypto.getRandomValues\<close> deliver and \<open>drawn\<close> the number of values taken so far.
  Only this branch of \<open>randomInt\<close> is modelled, the one every browser takes; the
  \<open>Math.random\<close> fallback is floating point. \<open>randomInt\<close> is called with
  \<open>min \<le> max\<close> only (\<open>0\<close> and \<open>votes.length - 1\<close> under the guard
  \<open>votes.length > 0\<close>, and \<open>1\<close> and \<open>3\<close>); for such arguments the subtraction on
  \<open>nat\<close> is the source's.
\<close>

type_synonym ref = nat

record World =
  nominations_mem :: "ref \<Rightarrow> Nomination list"
  votes_mem :: "ref \<Rightarrow> Vote list"
  users_mem :: "ref \<Rightarrow> User list"
  GERENTE_CACHE :: "ref \<rightharpoonup> string option"
  entropy :: "nat \<Rightarrow> 32 word"
  drawn :: nat
  engine_sort :: "ResultRow list \<Rightarrow> ResultRow list"

definition randomInt :: "nat \<Rightarrow> nat \<Rightarrow> World \<Rightarrow> nat \<times> World" where
  "randomInt min' max' w =
     (min' + unat (entropy w (drawn w)) mod (max' - min' + 1), w\<lparr>drawn := drawn w + 1\<rparr>)"

definition findGerenteId :: "ref \<Rightarrow> World \<Rightarrow> string option \<times> World" where
  "findGerenteId users w =
     (case GERENTE_CACHE w users of
        Some cached \<Rightarrow> (cached, w)
      | None \<Rightarrow>
          (let gerenteId = map_option id' (find (\<lambda>u. role u = Gerente \<or> title u = ''CIO'') (users_mem w users))
           in (gerenteId, w\<lparr>GERENTE_CACHE := (GERENTE_CACHE w)(users \<mapsto> gerenteId)\<rparr>)))"

section \<open>The vote count\<close>

text \<open>
  \<open>counts\<close> is the object \<open>{}\<close> used as a dictionary. It is modelled as the list of its
  own entries in the order of their creation, because \<open>Object.keys\<close> depends on that
  order. An object inherits the members of \<open>Object.prototype\<close>, whose names are listed
  in \<open>Object_prototype_names\<close> (those of the language and of its Annex B, which every
  browser has). \<open>bump\<close> is \<open>counts[cid] = (counts[cid] || 0) + 1\<close>:
  \<^item> an own entry keeps its place; a number grows by one, a string gets the character
    \<open>1\<close> appended (\<open>add_one\<close>);
  \<^item> for \<open>__proto__\<close>, which has no own entry, the read gives the prototype object and
    the assignment calls the inherited setter, which ignores a string: no entry is
    created;
  \<^item> for any other inherited name without an own entry, the read gives a native
    function, a truthy value, and \<open>+ 1\<close> converts it to its source text and appends
    \<open>1\<close>; the assignment creates the own entry with that string;
  \<^item> for any other id without an own entry, the read gives \<open>undefined\<close> and the new
    entry is the number 1.
\<close>

definition Object_prototype_names :: "string list" where
  "Object_prototype_names =
     [''constructor'', ''__defineGetter__'', ''__defineSetter__'', ''hasOwnProperty'',
      ''__lookupGetter__'', ''__lookupSetter__'', ''isPrototypeOf'', ''propertyIsEnumerable'',
      ''toString'', ''valueOf'', ''__proto__'', ''toLocaleString'']"

definition inherited_name :: "string \<Rightarrow> bool" where
  "inherited_name cid = (cid \<in> set Object_prototype_names)"

definition add_one :: "Tally \<Rightarrow> Tally" where
  "add_one v = (case v of Count n \<Rightarrow> Count (n + 1) | Inherited m k \<Rightarrow> Inherited m (k + 1))"

fun bump :: "(string \<times> Tally) list \<Rightarrow> string \<Rightarrow> (string \<times> Tally) list" where
  "bump [] cid =
     (if cid = ''__proto__'' then []
      else if inherited_name cid then [(cid, Inherited cid 1)]
      else [(cid, Count (0 + 1))])"
| "bump ((k, v) # kvs) cid = (if k = cid then (k, add_one v) # kvs else (k, v) # bump kvs cid)"

definition tally :: "Vote list \<Rightarrow> (string \<times> Tally) list" where
  "tally usedVotes = foldl (\<lambda>counts v. foldl bump counts (picks v)) [] usedVotes"

text \<open>
  \<open>Object.keys\<close> lists the own keys of an object as ECMAScript's
  OrdinaryOwnPropertyKeys orders them: first the keys that are array indices (the
  canonical decimal numerals of the integers from 0 to \<open>2^32 - 2\<close>), ascending by
  value, then the other string keys in the order of their creation.
\<close>

definition is_digit :: "char \<Rightarrow> bool" where
  "is_digit c = (48 \<le> (of_char c :: int) \<and> (of_char c :: int) \<le> 57)"

definition decimal :: "string \<Rightarrow> int" where
  "decimal s = foldl (\<lambda>n c. 10 * n + ((of_char c :: int) - 48)) 0 s"

definition is_array_index :: "string \<Rightarrow> bool" where
  "is_array_index s =
     (case s of
        [] \<Rightarrow> False
      | c # cs \<Rightarrow> list_all is_digit s \<and> (c = CHR ''0'' \<longrightarrow> cs = [])
                 \<and> decimal s \<le> 4294967294)"

definition Object_keys :: "(string \<times> Tally) list \<Rightarrow> string list" where
  "Object_keys obj =
     sort_key decimal (filter is_array_index (map fst obj))
     @ filter (\<lambda>k. \<not> is_array_index k) (map fst obj)"

text \<open>
  \<open>counts[cid]\<close> for a key that \<open>Object.keys\<close> returned, an own key. The model reads
  an absent key, which the source never does, as 0.
\<close>

definition count_of :: "(string \<times> Tally) list \<Rightarrow> string \<Rightarrow> Tally" where
  "count_of counts cid = (case map_of counts cid of Some v \<Rightarrow> v | None \<Rightarrow> Count 0)"

definition is_count :: "Tally \<Rightarrow> bool" where
  "is_count v = (case v of Count n \<Rightarrow> True | Inherited m k \<Rightarrow> False)"

text \<open>The number that a tally is; it is used only for a tally that is a number.\<close>

definition the_count :: "Tally \<Rightarrow> nat" where
  "the_count v = (case v of Count n \<Rightarrow> n | Inherited m k \<Rightarrow> 0)"

definition all_equal :: "nat list \<Rightarrow> bool" where
  "all_equal ns = (case ns of [] \<Rightarrow> True | n # ms \<Rightarrow> list_all (\<lambda>m. m = n) ms)"

text \<open>
  \<open>rows.sort((a, b) => b.votes - a.votes)\<close>. \<open>Array.prototype.sort\<close> is stable and takes
  a comparator result of \<open>NaN\<close> as 0.
  \<^item> When every \<open>votes\<close> is a number, the comparator orders by descending \<open>votes\<close>, and
    the result is the stable sort on the key \<open>- votes\<close>.
  \<^item> When some \<open>votes\<close> is a string, the comparator is \<open>NaN\<close>, hence 0, on every pair
    with that row. It is then a consistent comparison only if it is 0 on every pair,
    that is, if the \<open>votes\<close> that are numbers are all equal, and the stable sort leaves
    the rows as they are.
  \<^item> Otherwise the order is defined by the implementation: \<open>engine_sort\<close>.
\<close>

definition sort_rows :: "World \<Rightarrow> ResultRow list \<Rightarrow> ResultRow list" where
  "sort_rows w rs =
     (if list_all (\<lambda>r. is_count (votes r)) rs
        then sort_key (\<lambda>r. - int (the_count (votes r))) rs
      else if all_equal (map (\<lambda>r. the_count (votes r)) (filter (\<lambda>r. is_count (votes r)) rs))
        then rs
      else engine_sort w rs)"

definition ranked_rows :: "World \<Rightarrow> Vote list \<Rightarrow> ResultRow list" where
  "ranked_rows w usedVotes =
     (let counts = tally usedVotes;
          rows = map (\<lambda>cid. \<lparr>candidateId = cid, votes = count_of counts cid, days = 0\<rparr>)
                   (Object_keys counts)
      in sort_rows w rows)"

text \<open>
  A \<open>Set<string>\<close> is the list of its members in insertion order; \<open>set_add\<close> is
  \<open>Set.prototype.add\<close>, \<open>length\<close> its \<open>size\<close>.
\<close>

definition set_add :: "string list \<Rightarrow> string \<Rightarrow> string list" where
  "set_add s x = (if x \<in> set s then s else s @ [x])"

definition uniqueVoters :: "Vote list \<Rightarrow> string \<Rightarrow> string list" where
  "uniqueVoters usedVotes cid =
     foldl (\<lambda>s v. if cid \<in> set (picks v) then set_add s (voterId v) else s) [] usedVotes"

text \<open>
  The body of \<open>top3.forEach\<close>. \<open>gerenteIdResolved\<close> is \<open>gerenteId || null\<close>: an
  \<open>undefined\<close> id and the empty string both resolve to \<open>null\<close>, here \<open>None\<close>.
\<close>

definition resolve :: "string option \<Rightarrow> string option" where
  "resolve gerenteId = (case gerenteId of None \<Rightarrow> None | Some g \<Rightarrow> if g = [] then None else Some g)"

definition days_of :: "string option \<Rightarrow> Vote list \<Rightarrow> string \<Rightarrow> nat" where
  "days_of gerenteIdResolved usedVotes cid =
     (let uv = uniqueVoters usedVotes cid;
          hasGerente = (case gerenteIdResolved of None \<Rightarrow> False | Some g \<Rightarrow> g \<in> set uv);
          n = length uv;
          days0 = 0;
          days1 = (if n \<ge> 2 then 1 else days0);
          days2 = (if n \<ge> 3 \<and> \<not> hasGerente then 2 else days1);
          days3 = (if n \<ge> 3 \<and> hasGerente then 3 else days2)
      in days3)"

definition base_days :: "string option \<Rightarrow> Vote list \<Rightarrow> ResultRow list \<Rightarrow> (string \<rightharpoonup> nat)" where
  "base_days gerenteIdResolved usedVotes top3 =
     foldl (\<lambda>daysPerCandidate r.
              daysPerCandidate(candidateId r \<mapsto> days_of gerenteIdResolved usedVotes (candidateId r)))
       Map.empty top3"

text \<open>
  \<open>daysPerCandidate[cid] || 0\<close>. \<open>daysPerCandidate\<close> is an object used as a dictionary
  too, but no inherited member reaches the returned rows: the only entries that the
  final \<open>rows.map\<close> reads are those of the first three rows, which \<open>top3.forEach\<close> has
  created as own entries holding numbers (no row is named \<open>__proto__\<close>, since
  \<open>counts\<close> never has that key), and to which the bonus loop adds numbers. An entry
  that the bonus loop creates for another id is never read. The dictionary is therefore
  modelled as a map to numbers.
\<close>

definition days_or_0 :: "(string \<rightharpoonup> nat) \<Rightarrow> string \<Rightarrow> nat" where
  "days_or_0 daysPerCandidate cid = (case daysPerCandidate cid of None \<Rightarrow> 0 | Some d \<Rightarrow> d)"

text \<open>The body of \<open>gerenteVote.picks.forEach\<close>: one draw for each pick, in order.\<close>

fun bonus_loop :: "string list \<Rightarrow> (string \<rightharpoonup> nat) \<Rightarrow> World \<Rightarrow> (string \<rightharpoonup> nat) \<times> World" where
  "bonus_loop [] daysPerCandidate w = (daysPerCandidate, w)"
| "bonus_loop (cid # cids) daysPerCandidate w =
     (let (bonus, w') = randomInt 1 3 w
      in bonus_loop cids (daysPerCandidate(cid \<mapsto> days_or_0 daysPerCandidate cid + bonus)) w')"

definition apply_bonus ::
  "bool \<Rightarrow> string option \<Rightarrow> Vote list \<Rightarrow> (string \<rightharpoonup> nat) \<Rightarrow> World \<Rightarrow> (string \<rightharpoonup> nat) \<times> World" where
  "apply_bonus enabled gerenteIdResolved usedVotes daysPerCandidate w =
     (if enabled then
        (case gerenteIdResolved of
           None \<Rightarrow> (daysPerCandidate, w)
         | Some g \<Rightarrow>
             (case find (\<lambda>v. voterId v = g) usedVotes of
                None \<Rightarrow> (daysPerCandidate, w)
              | Some gerenteVote \<Rightarrow> bonus_loop (picks gerenteVote) daysPerCandidate w))
      else (daysPerCandidate, w))"

text \<open>\<open>votes.filter((_, i) => i !== idx)\<close> and \<open>rows.map((r, i) => ...)\<close>, with the index counted from \<open>i\<close>.\<close>

fun filter_idx :: "(nat \<Rightarrow> bool) \<Rightarrow> nat \<Rightarrow> 'a list \<Rightarrow> 'a list" where
  "filter_idx P i [] = []"
| "filter_idx P i (x # xs) = (if P i then x # filter_idx P (Suc i) xs else filter_idx P (Suc i) xs)"

fun map_idx :: "('a \<Rightarrow> nat \<Rightarrow> 'b) \<Rightarrow> nat \<Rightarrow> 'a list \<Rightarrow> 'b list" where
  "map_idx f i [] = []"
| "map_idx f i (x # xs) = f x i # map_idx f (Suc i) xs"

record Options =
  discardOneRandomVote :: bool
  enableGerenteBonus :: bool

record Result =
  rows :: "ResultRow list"
  discardedVoterId :: "string option"

text \<open>
  The discard step: the ballots that are counted, the discarded voter and the world
  after the draw. \<open>idx\<close> is below \<open>votes.length\<close>, so \<open>votes[idx]\<close> is an element.
\<close>

definition discard_step :: "bool \<Rightarrow> Vote list \<Rightarrow> World \<Rightarrow> Vote list \<times> string option \<times> World" where
  "discard_step discard vs w =
     (if discard \<and> length vs > 0 then
        (let (idx, w') = randomInt 0 (length vs - 1) w
         in (filter_idx (\<lambda>i. i \<noteq> idx) 0 vs, Some (voterId (vs ! idx)), w'))
      else (vs, None, w))"

text \<open>
  The second half of \<open>computeResults\<close>, from the sort to the returned rows, for the
  ballots that are counted and the resolved id of the Gerente.
\<close>

definition award :: "bool \<Rightarrow> string option \<Rightarrow> Vote list \<Rightarrow> World \<Rightarrow> ResultRow list \<times> World" where
  "award bonusEnabled gerenteIdResolved usedVotes w =
     (let sorted = ranked_rows w usedVotes;
          top3 = take 3 sorted;
          (daysPerCandidate, w') =
             apply_bonus bonusEnabled gerenteIdResolved usedVotes
               (base_days gerenteIdResolved usedVotes top3) w
      in (map_idx (\<lambda>r i. r\<lparr>days := (if i < 3 then days_or_0 daysPerCandidate (candidateId r) else 0)\<rparr>)
            0 sorted, w'))"

definition computeResults :: "ref \<Rightarrow> ref \<Rightarrow> ref \<Rightarrow> Options \<Rightarrow> World \<Rightarrow> Result \<times> World" where
  "computeResults nominations votes' users options w0 =
     (let (gerenteId, w1) = findGerenteId users w0;
          (usedVotes, discarded, w2) =
             discard_step (discardOneRandomVote options) (votes_mem w1 votes') w1;
          (finalRows, w3) = award (enableGerenteBonus options) (resolve gerenteId) usedVotes w2
      in (\<lparr>rows = finalRows, discardedVoterId = discarded\<rparr>, w3))"

section \<open>Schedule validation\<close>

text \<open>
  \<open>isValidSchedule\<close> builds a \<open>Date\<close> from each string \<open>d + "T00:00:00Z"\<close> and reads
  \<open>getUTCDay()\<close> and \<open>getTime()\<close>. \<open>Date\<close> is modelled by the definitions of
  ECMAScript: \<open>DayFromYear\<close>, \<open>InLeapYear\<close>, \<open>MakeDay\<close> (the day number of a
  calendar date, day 0 being 1 January 1970), \<open>msPerDay\<close> and
  \<open>WeekDay(t) = (Day(t) + 4) modulo 7\<close>, 0 being Sunday and 1 Monday.

  \<open>Date_getTime d\<close> is the time value of the date string \<open>d\<close>: for a string
  \<open>YYYY-MM-DD\<close> that names a day of the calendar, midnight UTC of that day. It is
  \<open>None\<close> for every other string. Such a string gives an invalid \<open>Date\<close>, whose
  \<open>getTime()\<close> is \<open>NaN\<close>, or a date that depends on the engine; the Monday test is
  false for \<open>NaN\<close>, so the loop goes on, but the order in which \<open>sort\<close> leaves an
  array with \<open>NaN\<close> keys is not fixed by the language. \<open>isValidSchedule\<close> therefore
  returns \<open>None\<close>, for "not determined by this model", when it reaches the sort with
  such a string among the dates.
\<close>

definition InLeapYear :: "int \<Rightarrow> bool" where
  "InLeapYear y = (y mod 4 = 0 \<and> (y mod 100 \<noteq> 0 \<or> y mod 400 = 0))"

definition DayFromYear :: "int \<Rightarrow> int" where
  "DayFromYear y = 365 * (y - 1970) + (y - 1969) div 4 - (y - 1901) div 100 + (y - 1601) div 400"

definition DaysInMonth :: "int \<Rightarrow> int \<Rightarrow> int" where
  "DaysInMonth y m =
     (if m = 2 then (if InLeapYear y then 29 else 28)
      else if m = 4 \<or> m = 6 \<or> m = 9 \<or> m = 11 then 30 else 31)"

fun DaysBeforeMonth :: "int \<Rightarrow> nat \<Rightarrow> int" where
  "DaysBeforeMonth y 0 = 0"
| "DaysBeforeMonth y (Suc k) = DaysBeforeMonth y k + DaysInMonth y (int (Suc k))"

definition MakeDay :: "int \<Rightarrow> int \<Rightarrow> int \<Rightarrow> int" where
  "MakeDay y m d = DayFromYear y + DaysBeforeMonth y (nat (m - 1)) + d - 1"

definition msPerDay :: int where
  "msPerDay = 24 * 60 * 60 * 1000"

definition WeekDay :: "int \<Rightarrow> int" where
  "WeekDay t = (t div msPerDay + 4) mod 7"

definition Date_getTime :: "string \<Rightarrow> int option" where
  "Date_getTime d =
     (case d of
        [y1, y2, y3, y4, s1, m1, m2, s2, d1, d2] \<Rightarrow>
          (let y = decimal [y1, y2, y3, y4]; m = decimal [m1, m2]; dd = decimal [d1, d2]
           in if list_all is_digit [y1, y2, y3, y4, m1, m2, d1, d2] \<and> s1 = CHR ''-'' \<and> s2 = CHR ''-''
                 \<and> 1 \<le> m \<and> m \<le> 12 \<and> 1 \<le> dd \<and> dd \<le> DaysInMonth y m
              then Some (MakeDay y m dd * msPerDay) else None)
      | _ \<Rightarrow> None)"

record DateInfo =
  timestamp :: int
  dayOfWeek :: int

record Verdict =
  ok :: bool
  reason :: "string option"

fun monday_loop :: "string list \<Rightarrow> DateInfo option list \<Rightarrow> Verdict + DateInfo option list" where
  "monday_loop [] dateInfo = Inr dateInfo"
| "monday_loop (d # ds) dateInfo =
     (case Date_getTime d of
        None \<Rightarrow> monday_loop ds (dateInfo @ [None])
      | Some t \<Rightarrow>
          (let dow = WeekDay t
           in if dow = 1 then Inl \<lparr>ok = False, reason = Some ''No se permiten lunes''\<rparr>
              else monday_loop ds (dateInfo @ [Some \<lparr>timestamp = t, dayOfWeek = dow\<rparr>])))"

fun consecutive_loop :: "DateInfo list \<Rightarrow> bool" where
  "consecutive_loop (a # b # rest) =
     (if timestamp b - timestamp a = msPerDay then True else consecutive_loop (b # rest))"
| "consecutive_loop _ = False"

definition isValidSchedule :: "string list \<Rightarrow> Verdict option" where
  "isValidSchedule days' =
     (if length days' = 0 then Some \<lparr>ok = False, reason = Some (''Selecciona al menos un d'' @ [CHR 0xED] @ ''a'')\<rparr>
      else
        (case monday_loop days' [] of
           Inl rejected \<Rightarrow> Some rejected
         | Inr dateInfo \<Rightarrow>
             (case those dateInfo of
                None \<Rightarrow> None
              | Some known \<Rightarrow>
                  (if consecutive_loop (sort_key timestamp known)
                   then Some \<lparr>ok = False, reason = Some (''No se permiten d'' @ [CHR 0xED] @ ''as consecutivos'')\<rparr>
                   else Some \<lparr>ok = True, reason = None\<rparr>))))"

section \<open>Notions used to state the properties\<close>

text \<open>
  A world for the worked examples: every ballot array holds \<open>vs\<close>, every roster array
  \<open>us\<close>, the cache is empty, every random draw delivers \<open>e\<close>, and the engine leaves
  an array that it cannot sort consistently as it is.
\<close>

definition example_world :: "Vote list \<Rightarrow> User list \<Rightarrow> 32 word \<Rightarrow> World" where
  "example_world vs us e = \<lparr>nominations_mem = (\<lambda>_. []), votes_mem = (\<lambda>_. vs), users_mem = (\<lambda>_. us),
      GERENTE_CACHE = Map.empty, entropy = (\<lambda>_. e), drawn = 0, engine_sort = (\<lambda>rs. rs)\<rparr>"

definition example_user :: "string \<Rightarrow> Role \<Rightarrow> string \<Rightarrow> User" where
  "example_user i r t = \<lparr>id' = i, name = i, role = r, title = t, team = GTI, photo = None\<rparr>"

text \<open>The predicate of the roster search in \<open>findGerenteId\<close>.\<close>

definition matches_gerente :: "User \<Rightarrow> bool" where
  "matches_gerente u = (role u = Gerente \<or> title u = ''CIO'')"

text \<open>
  The ballots none of whose picks is the name of a member of \<open>Object.prototype\<close>.
\<close>

definition plain_picks :: "Vote list \<Rightarrow> bool" where
  "plain_picks vs = list_all (\<lambda>v. list_all (\<lambda>cid. \<not> inherited_name cid) (picks v)) vs"



text \<open>
  The spec's words for the day award (section 4.2, step 5): the distinct voters whose
  ballot includes a candidate, and the table on their number and on whether the
  Executive is among them.
\<close>

definition spec_voters :: "Vote list \<Rightarrow> string \<Rightarrow> string set" where
  "spec_voters usedVotes cid = voterId ` {v \<in> set usedVotes. cid \<in> set (picks v)}"

definition spec_base_days :: "nat \<Rightarrow> bool \<Rightarrow> nat" where
  "spec_base_days n executive =
     (if n \<le> 1 then 0 else if n = 2 then 1 else if executive then 3 else 2)"

text \<open>
  The spec's words for the schedule rules: a string is an ISO date when it names a day
  of the calendar; such a date, read as midnight UTC, falls on a Monday; a
  chronologically sorted list of dates has an adjacent pair exactly one day (24 hours)
  apart. \<open>date_info\<close> is the entry that the first loop of \<open>isValidSchedule\<close> pushes for
  a date that is not a Monday.
\<close>

definition utc_midnight :: "string \<Rightarrow> int" where
  "utc_midnight d = (case Date_getTime d of Some t \<Rightarrow> t | None \<Rightarrow> 0)"

definition is_iso_date :: "string \<Rightarrow> bool" where
  "is_iso_date d = (Date_getTime d \<noteq> None)"

definition is_monday :: "string \<Rightarrow> bool" where
  "is_monday d = (is_iso_date d \<and> WeekDay (utc_midnight d) = 1)"

definition adjacent_one_day_apart :: "int list \<Rightarrow> bool" where
  "adjacent_one_day_apart ts = list_ex (\<lambda>(a, b). b - a = msPerDay) (zip ts (tl ts))"

definition date_info :: "string \<Rightarrow> DateInfo option" where
  "date_info d = map_option (\<lambda>t. \<lparr>timestamp = t, dayOfWeek = WeekDay t\<rparr>) (Date_getTime d)"

section \<open>Properties of the schedule status\<close>

lemma sanitize_char_length:
  "1 \<le> length (if html_special c then replace_match c else [c])"
  by (auto simp: html_special_def replace_match_def HTML_ENTITIES_def)

lemma sanitizeText_length: "length str \<le> length (sanitizeText str)"
proof (induction str)
  case Nil
  show ?case by (simp add: sanitizeText_def)
next
  case (Cons c cs)
  have "1 \<le> length (if html_special c then replace_match c else [c])"
    by (rule sanitize_char_length)
  with Cons show ?case by (simp add: sanitizeText_def)
qed

lemma sanitizeText_Cons:
  "sanitizeText (c # cs) = (if html_special c then replace_match c else [c]) @ sanitizeText cs"
  by (simp add: sanitizeText_def)

lemma sanitizeText_fixed: "sanitizeText str = str \<longleftrightarrow> (\<forall>c \<in> set str. \<not> html_special c)"
proof (induction str)
  case Nil
  show ?case by (simp add: sanitizeText_def)
next
  case (Cons c cs)
  show ?case
  proof (cases "html_special c")
    case False
    with Cons show ?thesis by (simp add: sanitizeText_Cons)
  next
    case True
    have "length (c # cs) < length (sanitizeText (c # cs))"
    proof -
      have "2 \<le> length (replace_match c)"
        using True by (auto simp: html_special_def replace_match_def HTML_ENTITIES_def)
      moreover have "length cs \<le> length (sanitizeText cs)" by (rule sanitizeText_length)
      ultimately show ?thesis using True by (simp add: sanitizeText_Cons)
    qed
    then have "sanitizeText (c # cs) \<noteq> c # cs" by auto
    with True show ?thesis by auto
  qed
qed

text \<open>
  C8, as the spec states it, at the error text \<open><\<close>: the spec's formatter would hand
  the text back unchanged, the source returns its HTML-escaped form.
\<close>

theorem getScheduleStatus_raw_error_counterexample:
  "getScheduleStatus 1 2 ''<'' \<noteq> \<lparr>message = ''<'', isError = True\<rparr>"
  by (simp add: getScheduleStatus_def sanitizeText_def html_special_def replace_match_def
      HTML_ENTITIES_def)

text \<open>
  C8 (amended): for every selected count, target count and error text,
  \<open>getScheduleStatus\<close> returns the HTML-escaped error text with \<open>isError\<close> set when the
  error text is not empty; otherwise \<open>Listo para programar\<close> (the spec's
  "ready to schedule") when the two counts are equal, and
  \<open>Selecciona las fechas requeridas\<close> (the spec's "select the required number of
  dates") when they differ, both with \<open>isError\<close> unset. The message is the error text
  itself exactly when that text has none of the characters \<open><\<close>, \<open>>\<close>, the double
  quote, the apostrophe and \<open>&\<close>.
\<close>

theorem getScheduleStatus_cases:
  "getScheduleStatus selectedDays targetDays error =
     (if error \<noteq> [] then \<lparr>message = sanitizeText error, isError = True\<rparr>
      else if selectedDays = targetDays then \<lparr>message = ''Listo para programar'', isError = False\<rparr>
      else \<lparr>message = ''Selecciona las fechas requeridas'', isError = False\<rparr>)
   \<and> (message (getScheduleStatus selectedDays targetDays error) = error
        \<longleftrightarrow> error \<noteq> [] \<and> (\<forall>c \<in> set error. \<not> html_special c))"
proof -
  have "message (getScheduleStatus selectedDays targetDays error) = error
        \<longleftrightarrow> error \<noteq> [] \<and> (\<forall>c \<in> set error. \<not> html_special c)"
  proof (cases "error = []")
    case True
    then show ?thesis by (simp add: getScheduleStatus_def)
  next
    case False
    then show ?thesis by (simp add: getScheduleStatus_def sanitizeText_fixed)
  qed
  then show ?thesis by (simp add: getScheduleStatus_def)
qed

theorem getScheduleStatus_cases_witness:
  "getScheduleStatus 1 2 ''No se permiten lunes'' = \<lparr>message = ''No se permiten lunes'', isError = True\<rparr>
   \<and> getScheduleStatus 3 3 [] = \<lparr>message = ''Listo para programar'', isError = False\<rparr>
   \<and> getScheduleStatus 2 3 [] = \<lparr>message = ''Selecciona las fechas requeridas'', isError = False\<rparr>
   \<and> message (getScheduleStatus 1 2 ''a&b'') = ''a&amp;b''"
  using getScheduleStatus_cases [of 1 2 "''No se permiten lunes''"]
    getScheduleStatus_cases [of 3 3 "[]"] getScheduleStatus_cases [of 2 3 "[]"]
    getScheduleStatus_cases [of 1 2 "''a&b''"]
  by (simp add: sanitizeText_def html_special_def replace_match_def HTML_ENTITIES_def)

section \<open>Properties of the schedule validation\<close>

lemma monday_loop_eq:
  "monday_loop ds dateInfo =
     (if list_ex is_monday ds then Inl \<lparr>ok = False, reason = Some ''No se permiten lunes''\<rparr>
      else Inr (dateInfo @ map date_info ds))"
proof (induction ds arbitrary: dateInfo)
  case Nil
  show ?case by simp
next
  case (Cons d ds)
  show ?case
  proof (cases "Date_getTime d")
    case None
    then show ?thesis
      by (simp add: Cons.IH is_monday_def is_iso_date_def date_info_def)
  next
    case (Some t)
    then show ?thesis
      by (simp add: Cons.IH is_monday_def is_iso_date_def utc_midnight_def date_info_def Let_def)
  qed
qed

lemma those_date_info:
  "list_all is_iso_date ds \<Longrightarrow>
   those (map date_info ds)
     = Some (map (\<lambda>d. \<lparr>timestamp = utc_midnight d, dayOfWeek = WeekDay (utc_midnight d)\<rparr>) ds)"
proof (induction ds)
  case Nil
  show ?case by simp
next
  case (Cons d ds)
  then obtain t where "Date_getTime d = Some t" by (auto simp: is_iso_date_def)
  with Cons show ?case by (simp add: date_info_def utc_midnight_def)
qed

lemma consecutive_loop_eq: "consecutive_loop xs = adjacent_one_day_apart (map timestamp xs)"
  by (induction xs rule: consecutive_loop.induct) (auto simp: adjacent_one_day_apart_def)

lemma map_insort_key: "map f (insort_key f x ys) = insort (f x) (map f ys)"
  by (induction ys) simp_all

lemma map_sort_key: "map f (sort_key f xs) = sort (map f xs)"
  by (induction xs) (simp_all add: map_insort_key)

text \<open>
  C7, as the spec states it, on the empty selection, on a Monday and on two
  consecutive days: the selections are rejected, but the reasons are not the spec's
  English strings. The source returns Spanish texts.
\<close>

theorem isValidSchedule_reason_counterexample:
  "isValidSchedule [] \<noteq> Some \<lparr>ok = False, reason = Some ''select at least one date''\<rparr>
   \<and> isValidSchedule [''2024-06-17''] \<noteq> Some \<lparr>ok = False, reason = Some ''Mondays are not allowed''\<rparr>
   \<and> isValidSchedule [''2024-06-18'', ''2024-06-19'']
       \<noteq> Some \<lparr>ok = False, reason = Some ''consecutive days are not allowed''\<rparr>"
proof -
  have "isValidSchedule [] = Some \<lparr>ok = False, reason = Some (''Selecciona al menos un d'' @ [CHR 0xED] @ ''a'')\<rparr>"
    by code_simp
  moreover have "isValidSchedule [''2024-06-17''] = Some \<lparr>ok = False, reason = Some ''No se permiten lunes''\<rparr>"
    by code_simp
  moreover have "isValidSchedule [''2024-06-18'', ''2024-06-19'']
      = Some \<lparr>ok = False, reason = Some (''No se permiten d'' @ [CHR 0xED] @ ''as consecutivos'')\<rparr>"
    by code_simp
  ultimately show ?thesis by simp
qed

text \<open>
  C7 (amended): for every list of ISO date strings, \<open>isValidSchedule\<close> rejects with
  the reason \<open>Selecciona al menos un dia\<close> (the spec's "select at least one date")
  when the list is empty; otherwise with \<open>No se permiten lunes\<close> (the spec's "Mondays
  are not allowed") when some date, read as a UTC calendar date, falls on a Monday;
  otherwise with \<open>No se permiten dias consecutivos\<close> (the spec's "consecutive days
  are not allowed") when, after chronological sorting, some adjacent pair is exactly one
  day apart; otherwise it accepts, with no reason. The first failing rule, in this
  order, decides. In both texts the \<open>i\<close> of \<open>dia\<close> carries an acute accent, the code
  unit \<open>0xED\<close>.
\<close>

theorem isValidSchedule_rules:
  assumes "list_all is_iso_date days'"
  shows "isValidSchedule days' =
     Some (if days' = []
             then \<lparr>ok = False, reason = Some (''Selecciona al menos un d'' @ [CHR 0xED] @ ''a'')\<rparr>
           else if list_ex is_monday days'
             then \<lparr>ok = False, reason = Some ''No se permiten lunes''\<rparr>
           else if adjacent_one_day_apart (sort (map utc_midnight days'))
             then \<lparr>ok = False, reason = Some (''No se permiten d'' @ [CHR 0xED] @ ''as consecutivos'')\<rparr>
           else \<lparr>ok = True, reason = None\<rparr>)"
proof (cases "days' = []")
  case True
  then show ?thesis by (simp add: isValidSchedule_def)
next
  case False
  show ?thesis
  proof (cases "list_ex is_monday days'")
    case True
    then show ?thesis using False by (simp add: isValidSchedule_def monday_loop_eq)
  next
    case nomonday: False
    let ?known = "map (\<lambda>d. \<lparr>timestamp = utc_midnight d, dayOfWeek = WeekDay (utc_midnight d)\<rparr>) days'"
    have "map timestamp (sort_key timestamp ?known) = sort (map utc_midnight days')"
      by (simp add: map_sort_key comp_def)
    then have "consecutive_loop (sort_key timestamp ?known)
        = adjacent_one_day_apart (sort (map utc_midnight days'))"
      by (simp only: consecutive_loop_eq)
    then show ?thesis
      using False nomonday
      by (simp add: isValidSchedule_def monday_loop_eq those_date_info [OF assms])
  qed
qed

theorem isValidSchedule_rules_witness:
  "list_all is_iso_date [''2024-06-20'', ''2024-06-18'']
   \<and> isValidSchedule [''2024-06-20'', ''2024-06-18''] = Some \<lparr>ok = True, reason = None\<rparr>
   \<and> list_all is_iso_date [''2024-06-21'', ''2024-06-19'', ''2024-06-20'']
   \<and> isValidSchedule [''2024-06-21'', ''2024-06-19'', ''2024-06-20'']
       = Some \<lparr>ok = False, reason = Some (''No se permiten d'' @ [CHR 0xED] @ ''as consecutivos'')\<rparr>
   \<and> list_all is_iso_date [''2024-06-18'', ''2024-06-19'', ''2024-06-17'']
   \<and> isValidSchedule [''2024-06-18'', ''2024-06-19'', ''2024-06-17'']
       = Some \<lparr>ok = False, reason = Some ''No se permiten lunes''\<rparr>"
proof -
  have a: "list_all is_iso_date [''2024-06-20'', ''2024-06-18'']"
    and b: "list_all is_iso_date [''2024-06-21'', ''2024-06-19'', ''2024-06-20'']"
    and c: "list_all is_iso_date [''2024-06-18'', ''2024-06-19'', ''2024-06-17'']"
    by code_simp+
  have a': "\<not> list_ex is_monday [''2024-06-20'', ''2024-06-18'']"
       "\<not> adjacent_one_day_apart (sort (map utc_midnight [''2024-06-20'', ''2024-06-18'']))"
    by code_simp+
  have b': "\<not> list_ex is_monday [''2024-06-21'', ''2024-06-19'', ''2024-06-20'']"
       "adjacent_one_day_apart (sort (map utc_midnight [''2024-06-21'', ''2024-06-19'', ''2024-06-20'']))"
    by code_simp+
  have c': "list_ex is_monday [''2024-06-18'', ''2024-06-19'', ''2024-06-17'']"
    by code_simp
  show ?thesis
    using isValidSchedule_rules [OF a] isValidSchedule_rules [OF b] isValidSchedule_rules [OF c]
      a b c a' b' c'
    by simp
qed

section \<open>Lemmas on the random source, the cache and the stages of the count\<close>

lemma randomInt_fst: "fst (randomInt a b w) = a + unat (entropy w (drawn w)) mod (b - a + 1)"
  by (simp add: randomInt_def)

lemma randomInt_range:
  assumes "a \<le> b"
  shows "a \<le> fst (randomInt a b w)" and "fst (randomInt a b w) \<le> b"
proof -
  have "unat (entropy w (drawn w)) mod (b - a + 1) \<le> b - a"
    by (metis Suc_eq_plus1 less_Suc_eq_le mod_less_divisor zero_less_Suc)
  with assms show "fst (randomInt a b w) \<le> b" unfolding randomInt_fst by arith
  show "a \<le> fst (randomInt a b w)" by (simp add: randomInt_fst)
qed

lemma filter_idx_remove:
  "filter_idx (\<lambda>i. i \<noteq> k + idx) k xs = take idx xs @ drop (Suc idx) xs"
proof (induction xs arbitrary: k idx)
  case Nil
  show ?case by simp
next
  case (Cons x xs)
  show ?case
  proof (cases idx)
    case 0
    have "filter_idx (\<lambda>i. i \<noteq> k) (Suc k) xs = xs"
    proof -
      have "\<And>j. k < j \<Longrightarrow> filter_idx (\<lambda>i. i \<noteq> k) j xs = xs"
        by (induction xs) auto
      then show ?thesis by simp
    qed
    with 0 show ?thesis by simp
  next
    case (Suc m)
    have "filter_idx (\<lambda>i. i \<noteq> Suc k + m) (Suc k) xs = take m xs @ drop (Suc m) xs"
      by (rule Cons.IH)
    with Suc show ?thesis by simp
  qed
qed

lemma length_map_idx: "length (map_idx f k xs) = length xs"
  by (induction xs arbitrary: k) auto

lemma nth_map_idx: "i < length xs \<Longrightarrow> map_idx f k xs ! i = f (xs ! i) (k + i)"
proof (induction xs arbitrary: k i)
  case Nil
  then show ?case by simp
next
  case (Cons x xs)
  then show ?case by (cases i) auto
qed

lemma findGerenteId_hit:
  "GERENTE_CACHE w users = Some c \<Longrightarrow> findGerenteId users w = (c, w)"
  by (simp add: findGerenteId_def)

lemma findGerenteId_miss:
  "GERENTE_CACHE w users = None \<Longrightarrow>
   findGerenteId users w =
     (map_option id' (find (\<lambda>u. role u = Gerente \<or> title u = ''CIO'') (users_mem w users)),
      w\<lparr>GERENTE_CACHE := (GERENTE_CACHE w)(users \<mapsto>
          map_option id' (find (\<lambda>u. role u = Gerente \<or> title u = ''CIO'') (users_mem w users)))\<rparr>)"
  by (simp add: findGerenteId_def Let_def)

lemma findGerenteId_cached:
  "GERENTE_CACHE (snd (findGerenteId users w)) users = Some (fst (findGerenteId users w))"
  by (cases "GERENTE_CACHE w users") (simp_all add: findGerenteId_def Let_def)

lemma findGerenteId_again:
  "findGerenteId users (snd (findGerenteId users w)) = findGerenteId users w"
  using findGerenteId_cached [of users w] findGerenteId_hit
  by (metis prod.collapse)

lemma findGerenteId_frame:
  "nominations_mem (snd (findGerenteId users w)) = nominations_mem w"
  "votes_mem (snd (findGerenteId users w)) = votes_mem w"
  "users_mem (snd (findGerenteId users w)) = users_mem w"
  "entropy (snd (findGerenteId users w)) = entropy w"
  "drawn (snd (findGerenteId users w)) = drawn w"
  "engine_sort (snd (findGerenteId users w)) = engine_sort w"
  by (cases "GERENTE_CACHE w users"; simp add: findGerenteId_def Let_def)+

lemma not_inherited_proto: "\<not> inherited_name cid \<Longrightarrow> cid \<noteq> ''__proto__''"
  by (auto simp: inherited_name_def Object_prototype_names_def)

lemma set_add_distinct: "distinct s \<Longrightarrow> distinct (set_add s x)"
  by (simp add: set_add_def)

lemma set_set_add: "set (set_add s x) = insert x (set s)"
  by (auto simp: set_add_def)

lemma set_add_Cons: "k \<noteq> x \<Longrightarrow> set_add (k # ks) x = k # set_add ks x"
  by (simp add: set_add_def)

lemma bump_keys:
  "map fst (bump counts cid) =
     (if cid = ''__proto__'' then map fst counts else set_add (map fst counts) cid)"
proof (induction counts cid rule: bump.induct)
  case (1 cid)
  show ?case by (simp add: set_add_def)
next
  case (2 k v kvs cid)
  show ?case
  proof (cases "k = cid")
    case True
    then show ?thesis by (simp add: set_add_def)
  next
    case False
    then show ?thesis using 2 by (simp add: set_add_Cons)
  qed
qed

lemma foldl_bump_keys:
  "map fst (foldl bump counts cids)
     = foldl set_add (map fst counts) (filter (\<lambda>c. c \<noteq> ''__proto__'') cids)"
  by (induction cids arbitrary: counts) (simp_all add: bump_keys)

lemma foldl_set_add_distinct: "distinct s \<Longrightarrow> distinct (foldl set_add s xs)"
  by (induction xs arbitrary: s) (simp_all add: set_add_distinct)


lemma tally_flat: "foldl (\<lambda>counts v. foldl bump counts (picks v)) counts vs
                   = foldl bump counts (concat (map picks vs))"
  by (induction vs arbitrary: counts) simp_all

lemma tally_eq: "tally usedVotes = foldl bump [] (concat (map picks usedVotes))"
  by (simp add: tally_def tally_flat)

lemma tally_keys:
  "map fst (tally usedVotes)
     = foldl set_add [] (filter (\<lambda>c. c \<noteq> ''__proto__'') (concat (map picks usedVotes)))"
  by (simp add: tally_eq foldl_bump_keys)

lemma tally_distinct: "distinct (map fst (tally usedVotes))"
  by (simp add: tally_keys foldl_set_add_distinct)

lemma plain_picks_concat:
  "plain_picks vs = list_all (\<lambda>c. \<not> inherited_name c) (concat (map picks vs))"
  by (induction vs) (simp_all add: plain_picks_def)



lemma bump_counts:
  assumes "\<not> inherited_name cid" and "list_all (\<lambda>kv. is_count (snd kv)) counts"
  shows "list_all (\<lambda>kv. is_count (snd kv)) (bump counts cid)"
    and "sum_list (map (\<lambda>kv. the_count (snd kv)) (bump counts cid))
         = sum_list (map (\<lambda>kv. the_count (snd kv)) counts) + 1"
  using assms
  by (induction counts cid rule: bump.induct)
     (auto simp: add_one_def is_count_def the_count_def dest: not_inherited_proto split: Tally.splits)

lemma foldl_bump_counts:
  assumes "list_all (\<lambda>c. \<not> inherited_name c) cids" and "list_all (\<lambda>kv. is_count (snd kv)) counts"
  shows "list_all (\<lambda>kv. is_count (snd kv)) (foldl bump counts cids)
         \<and> sum_list (map (\<lambda>kv. the_count (snd kv)) (foldl bump counts cids))
           = sum_list (map (\<lambda>kv. the_count (snd kv)) counts) + length cids"
  using assms
proof (induction cids arbitrary: counts)
  case Nil
  then show ?case by simp
next
  case (Cons c cids)
  have c: "\<not> inherited_name c" and cs: "list_all (\<lambda>c. \<not> inherited_name c) cids"
    using Cons.prems(1) by simp_all
  note b = bump_counts [OF c Cons.prems(2)]
  show ?case using Cons.IH [OF cs b(1)] b(2) by simp
qed

lemma tally_counts:
  assumes "plain_picks usedVotes"
  shows "list_all (\<lambda>kv. is_count (snd kv)) (tally usedVotes)"
    and "sum_list (map (\<lambda>kv. the_count (snd kv)) (tally usedVotes))
         = length (concat (map picks usedVotes))"
  using foldl_bump_counts [of "concat (map picks usedVotes)" "[]"] assms
  by (simp_all add: tally_eq plain_picks_concat)

lemma length_concat_picks: "length (concat (map picks vs)) = sum_list (map (\<lambda>v. length (picks v)) vs)"
  by (induction vs) simp_all

lemma mset_Object_keys: "mset (Object_keys obj) = mset (map fst obj)"
  unfolding Object_keys_def mset_append mset_sort mset_filter
  by (metis multiset_partition add.commute)

lemma count_of_distinct:
  "distinct (map fst counts) \<Longrightarrow> map (count_of counts) (map fst counts) = map snd counts"
proof (induction counts)
  case Nil
  show ?case by simp
next
  case (Cons kv counts)
  obtain k n where kv: "kv = (k, n)" by (cases kv)
  have "\<And>x. x \<in> fst ` set counts \<Longrightarrow> count_of (kv # counts) x = count_of counts x"
    using Cons.prems by (auto simp: kv count_of_def)
  then have "map (count_of (kv # counts)) (map fst counts) = map (count_of counts) (map fst counts)"
    by simp
  with Cons show ?case by (simp add: kv count_of_def)
qed

lemma unsorted_votes_mset:
  "mset (map votes (map (\<lambda>cid. \<lparr>candidateId = cid, votes = count_of (tally usedVotes) cid, days = 0\<rparr>)
            (Object_keys (tally usedVotes))))
   = mset (map snd (tally usedVotes))"
proof -
  let ?c = "tally usedVotes"
  have "map votes (map (\<lambda>cid. \<lparr>candidateId = cid, votes = count_of ?c cid, days = 0\<rparr>) (Object_keys ?c))
        = map (count_of ?c) (Object_keys ?c)"
    by (simp add: comp_def)
  then have "mset (map votes (map (\<lambda>cid. \<lparr>candidateId = cid, votes = count_of ?c cid, days = 0\<rparr>) (Object_keys ?c)))
        = image_mset (count_of ?c) (mset (Object_keys ?c))"
    by (simp only: mset_map)
  also have "\<dots> = mset (map (count_of ?c) (map fst ?c))"
    by (simp only: mset_Object_keys mset_map)
  finally show ?thesis
    by (simp only: count_of_distinct [OF tally_distinct])
qed

lemma list_all_mset: "mset xs = mset ys \<Longrightarrow> list_all P xs = list_all P ys"
  by (metis list_all_iff mset_eq_setD)

lemma ranked_rows_plain:
  assumes "plain_picks usedVotes"
  shows "ranked_rows w usedVotes =
           sort_key (\<lambda>r. - int (the_count (votes r)))
             (map (\<lambda>cid. \<lparr>candidateId = cid, votes = count_of (tally usedVotes) cid, days = 0\<rparr>)
                (Object_keys (tally usedVotes)))"
    and "list_all is_count (map votes (ranked_rows w usedVotes))"
proof -
  let ?c = "tally usedVotes"
  let ?rows = "map (\<lambda>cid. \<lparr>candidateId = cid, votes = count_of ?c cid, days = 0\<rparr>) (Object_keys ?c)"
  have "list_all is_count (map snd ?c)"
    using tally_counts(1) [OF assms] by (simp add: list_all_iff)
  then have all: "list_all is_count (map votes ?rows)"
    using list_all_mset [OF unsorted_votes_mset, of is_count usedVotes] by simp
  then have "list_all (\<lambda>r. is_count (votes r)) ?rows"
    by (simp add: list_all_iff)
  then show eq: "ranked_rows w usedVotes = sort_key (\<lambda>r. - int (the_count (votes r))) ?rows"
    by (simp add: ranked_rows_def Let_def sort_rows_def)
  have "mset (map votes (sort_key (\<lambda>r. - int (the_count (votes r))) ?rows)) = mset (map votes ?rows)"
    by (simp only: mset_map mset_sort)
  then show "list_all is_count (map votes (ranked_rows w usedVotes))"
    unfolding eq using all list_all_mset by blast
qed

lemma sum_votes_ranked:
  assumes "plain_picks usedVotes"
  shows "sum_list (map (\<lambda>r. the_count (votes r)) (ranked_rows w usedVotes))
         = length (concat (map picks usedVotes))"
proof -
  let ?c = "tally usedVotes"
  let ?rows = "map (\<lambda>cid. \<lparr>candidateId = cid, votes = count_of ?c cid, days = 0\<rparr>) (Object_keys ?c)"
  let ?key = "\<lambda>r. - int (the_count (votes r))"
  have m: "mset (map votes (sort_key ?key ?rows)) = mset (map snd ?c)"
    unfolding unsorted_votes_mset [symmetric] by (simp only: mset_map mset_sort)
  have "sum_list (map (\<lambda>r. the_count (votes r)) (ranked_rows w usedVotes))
        = sum_list (map the_count (map votes (sort_key ?key ?rows)))"
    unfolding ranked_rows_plain(1) [OF assms] by (simp only: map_map comp_def)
  also have "\<dots> = sum_mset (image_mset the_count (mset (map votes (sort_key ?key ?rows))))"
    by (simp only: mset_map [symmetric] sum_mset_sum_list)
  also have "\<dots> = sum_mset (image_mset the_count (mset (map snd ?c)))"
    by (simp only: m)
  also have "\<dots> = sum_list (map (\<lambda>kv. the_count (snd kv)) ?c)"
    by (simp only: mset_map [symmetric] sum_mset_sum_list map_map comp_def)
  finally show ?thesis by (simp only: tally_counts(2) [OF assms])
qed

lemma map_idx_votes: "map votes (map_idx (\<lambda>r i. r\<lparr>days := g r i\<rparr>) k xs) = map votes xs"
  by (induction xs arbitrary: k) simp_all

lemma bonus_loop_world: "snd (bonus_loop cids d w) = w\<lparr>drawn := drawn w + length cids\<rparr>"
  by (induction cids arbitrary: d w) (simp_all add: randomInt_def)

lemma apply_bonus_world: "\<exists>k. snd (apply_bonus enabled g usedVotes d w) = w\<lparr>drawn := drawn w + k\<rparr>"
proof (cases "enabled \<and> (\<exists>h gv. g = Some h \<and> find (\<lambda>v. voterId v = h) usedVotes = Some gv)")
  case True
  then obtain h gv where "enabled" "g = Some h" "find (\<lambda>v. voterId v = h) usedVotes = Some gv"
    by blast
  then have "snd (apply_bonus enabled g usedVotes d w) = w\<lparr>drawn := drawn w + length (picks gv)\<rparr>"
    by (simp add: apply_bonus_def bonus_loop_world)
  then show ?thesis by blast
next
  case False
  then have "snd (apply_bonus enabled g usedVotes d w) = w\<lparr>drawn := drawn w + 0\<rparr>"
    by (auto simp: apply_bonus_def split: option.splits)
  then show ?thesis by blast
qed

lemma apply_bonus_off: "apply_bonus False g usedVotes d w = (d, w)"
  by (simp add: apply_bonus_def)

lemma discard_step_off: "discard_step False vs w = (vs, None, w)"
  by (simp add: discard_step_def)

lemma discard_step_empty: "discard_step b [] w = ([], None, w)"
  by (simp add: discard_step_def)

lemma discard_step_on:
  "vs \<noteq> [] \<Longrightarrow>
   discard_step True vs w =
     (take (unat (entropy w (drawn w)) mod length vs) vs
        @ drop (Suc (unat (entropy w (drawn w)) mod length vs)) vs,
      Some (voterId (vs ! (unat (entropy w (drawn w)) mod length vs))),
      w\<lparr>drawn := drawn w + 1\<rparr>)"
  using filter_idx_remove [of 0 "unat (entropy w (drawn w)) mod length vs" vs]
  by (simp add: discard_step_def randomInt_def)

lemma discard_step_world:
  "snd (snd (discard_step b vs w)) = w\<lparr>drawn := drawn w + (if b \<and> vs \<noteq> [] then 1 else 0)\<rparr>"
  by (cases b; cases "vs = []") (simp_all add: discard_step_on discard_step_off discard_step_empty)

lemma discard_step_used_cong:
  "entropy w = entropy w' \<Longrightarrow> drawn w = drawn w' \<Longrightarrow>
   fst (discard_step b vs w) = fst (discard_step b vs w')
   \<and> fst (snd (discard_step b vs w)) = fst (snd (discard_step b vs w'))"
  by (cases b; cases "vs = []") (simp_all add: discard_step_on discard_step_off discard_step_empty)

lemma bonus_loop_cong:
  "entropy w1 = entropy w2 \<Longrightarrow> drawn w1 = drawn w2 \<Longrightarrow>
   fst (bonus_loop cids d w1) = fst (bonus_loop cids d w2)"
proof (induction cids arbitrary: d w1 w2)
  case Nil
  show ?case by simp
next
  case (Cons c cids)
  have "fst (bonus_loop cids D (w1\<lparr>drawn := drawn w1 + 1\<rparr>))
        = fst (bonus_loop cids D (w2\<lparr>drawn := drawn w2 + 1\<rparr>))" for D
    by (rule Cons.IH) (simp_all add: Cons.prems)
  then show ?case using Cons.prems by (simp add: randomInt_def)
qed

lemma apply_bonus_cong:
  "entropy w1 = entropy w2 \<Longrightarrow> drawn w1 = drawn w2 \<Longrightarrow>
   fst (apply_bonus b g u d w1) = fst (apply_bonus b g u d w2)"
  unfolding apply_bonus_def
  by (auto split: option.splits intro: bonus_loop_cong)

lemma ranked_rows_cong:
  assumes "engine_sort w1 = engine_sort w2"
  shows "ranked_rows w1 usedVotes = ranked_rows w2 usedVotes"
  unfolding ranked_rows_def sort_rows_def assms by (rule refl)

lemma award_rows:
  "fst (award b g usedVotes w) =
     map_idx (\<lambda>r i. r\<lparr>days := (if i < 3 then days_or_0
          (fst (apply_bonus b g usedVotes (base_days g usedVotes (take 3 (ranked_rows w usedVotes))) w))
          (candidateId r) else 0)\<rparr>) 0 (ranked_rows w usedVotes)"
  unfolding award_def Let_def split_beta by simp

lemma award_world:
  "snd (award b g usedVotes w) =
     snd (apply_bonus b g usedVotes (base_days g usedVotes (take 3 (ranked_rows w usedVotes))) w)"
  unfolding award_def Let_def split_beta by simp

lemma award_cong:
  assumes "entropy w1 = entropy w2" and "drawn w1 = drawn w2" and "engine_sort w1 = engine_sort w2"
  shows "fst (award b g usedVotes w1) = fst (award b g usedVotes w2)"
  unfolding award_rows apply_bonus_cong [OF assms(1,2)] ranked_rows_cong [OF assms(3)]
  by (rule refl)

lemma award_world_shape: "\<exists>k. snd (award b g usedVotes w) = w\<lparr>drawn := drawn w + k\<rparr>"
  unfolding award_world by (rule apply_bonus_world)

lemma computeResults_rows:
  "rows (fst (computeResults nominations votes' users options w)) =
     fst (award (enableGerenteBonus options) (resolve (fst (findGerenteId users w)))
           (fst (discard_step (discardOneRandomVote options) (votes_mem w votes') (snd (findGerenteId users w))))
           (snd (snd (discard_step (discardOneRandomVote options) (votes_mem w votes') (snd (findGerenteId users w))))))"
  by (simp add: computeResults_def split_beta Let_def findGerenteId_frame)

lemma computeResults_discarded:
  "discardedVoterId (fst (computeResults nominations votes' users options w)) =
     fst (snd (discard_step (discardOneRandomVote options) (votes_mem w votes') (snd (findGerenteId users w))))"
  by (simp add: computeResults_def split_beta Let_def findGerenteId_frame)

lemma computeResults_world:
  "snd (computeResults nominations votes' users options w) =
     snd (award (enableGerenteBonus options) (resolve (fst (findGerenteId users w)))
           (fst (discard_step (discardOneRandomVote options) (votes_mem w votes') (snd (findGerenteId users w))))
           (snd (snd (discard_step (discardOneRandomVote options) (votes_mem w votes') (snd (findGerenteId users w))))))"
  by (simp add: computeResults_def split_beta Let_def findGerenteId_frame)

lemma computeResults_world_shape:
  "\<exists>k. snd (computeResults nominations votes' users options w)
       = (snd (findGerenteId users w))\<lparr>drawn := drawn w + k\<rparr>"
proof -
  let ?w1 = "snd (findGerenteId users w)"
  let ?ds = "discard_step (discardOneRandomVote options) (votes_mem w votes') ?w1"
  obtain j where j: "snd (snd ?ds) = ?w1\<lparr>drawn := drawn ?w1 + j\<rparr>"
    using discard_step_world by blast
  obtain k where "snd (computeResults nominations votes' users options w)
       = (snd (snd ?ds))\<lparr>drawn := drawn (snd (snd ?ds)) + k\<rparr>"
    unfolding computeResults_world using award_world_shape by blast
  then have "snd (computeResults nominations votes' users options w)
       = ?w1\<lparr>drawn := drawn w + (j + k)\<rparr>"
    by (simp add: j findGerenteId_frame add.assoc)
  then show ?thesis by blast
qed

section \<open>Lemmas on the order of the rows and on the day awards\<close>










lemma discard_step_used:
  "fst (discard_step b vs (snd (findGerenteId users w))) = fst (discard_step b vs w)"
  using discard_step_used_cong [of "snd (findGerenteId users w)" w b vs]
  by (simp add: findGerenteId_frame)



lemma rows_nth:
  assumes "i < length (ranked_rows v usedVotes)"
  shows "fst (award b g usedVotes v) ! i =
     (ranked_rows v usedVotes ! i)\<lparr>days := (if i < 3 then days_or_0
          (fst (apply_bonus b g usedVotes (base_days g usedVotes (take 3 (ranked_rows v usedVotes))) v))
          (candidateId (ranked_rows v usedVotes ! i)) else 0)\<rparr>"
  unfolding award_rows using assms by (simp add: nth_map_idx)

lemma award_length: "length (fst (award b g usedVotes v)) = length (ranked_rows v usedVotes)"
  unfolding award_rows by (simp add: length_map_idx)

lemma uniqueVoters_fold:
  "set (foldl (\<lambda>s v. if P v then set_add s (voterId v) else s) acc vs)
     = set acc \<union> voterId ` {v \<in> set vs. P v}
   \<and> (distinct acc \<longrightarrow> distinct (foldl (\<lambda>s v. if P v then set_add s (voterId v) else s) acc vs))"
proof (induction vs arbitrary: acc)
  case Nil
  show ?case by simp
next
  case (Cons v vs)
  show ?case
  proof (cases "P v")
    case True
    show ?thesis
      using Cons.IH [of "set_add acc (voterId v)"] True
      by (auto simp: set_set_add set_add_distinct)
  next
    case False
    show ?thesis using Cons.IH [of acc] False by auto
  qed
qed

lemma uniqueVoters_set: "set (uniqueVoters usedVotes cid) = spec_voters usedVotes cid"
  unfolding uniqueVoters_def spec_voters_def
  using uniqueVoters_fold [of "\<lambda>v. cid \<in> set (picks v)" "[]" usedVotes] by simp

lemma uniqueVoters_size: "length (uniqueVoters usedVotes cid) = card (spec_voters usedVotes cid)"
proof -
  have "distinct (uniqueVoters usedVotes cid)"
    unfolding uniqueVoters_def
    using uniqueVoters_fold [of "\<lambda>v. cid \<in> set (picks v)" "[]" usedVotes] by simp
  then show ?thesis
    using uniqueVoters_set [of usedVotes cid] by (metis distinct_card)
qed

lemma days_of_spec:
  "days_of g usedVotes cid =
     spec_base_days (card (spec_voters usedVotes cid))
       (case g of None \<Rightarrow> False | Some h \<Rightarrow> h \<in> spec_voters usedVotes cid)"
  unfolding days_of_def Let_def uniqueVoters_set uniqueVoters_size spec_base_days_def
  by auto

lemma base_days_fold:
  "foldl (\<lambda>d r. d(candidateId r \<mapsto> f (candidateId r))) d0 rs c
     = (if c \<in> candidateId ` set rs then Some (f c) else d0 c)"
  by (induction rs arbitrary: d0) auto

lemma base_days_lookup:
  "r \<in> set top3 \<Longrightarrow>
   days_or_0 (base_days g usedVotes top3) (candidateId r) = days_of g usedVotes (candidateId r)"
  unfolding base_days_def days_or_0_def base_days_fold by auto

lemma nth_in_take: "i < n \<Longrightarrow> i < length xs \<Longrightarrow> xs ! i \<in> set (take n xs)"
  by (metis in_set_conv_nth length_take min_less_iff_conj nth_take)

lemma days_or_0_upd:
  "days_or_0 (d(cid \<mapsto> n)) c = (if c = cid then n else days_or_0 d c)"
  by (simp add: days_or_0_def)

lemma bonus_loop_bounds:
  "days_or_0 d c + count_list cids c \<le> days_or_0 (fst (bonus_loop cids d v)) c
   \<and> days_or_0 (fst (bonus_loop cids d v)) c \<le> days_or_0 d c + 3 * count_list cids c"
proof (induction cids arbitrary: d v)
  case Nil
  show ?case by simp
next
  case (Cons cid cids)
  let ?bonus = "fst (randomInt 1 3 v)"
  let ?d = "d(cid \<mapsto> days_or_0 d cid + ?bonus)"
  have b: "1 \<le> ?bonus" "?bonus \<le> 3"
    using randomInt_range [of 1 3 v] by simp_all
  have step: "fst (bonus_loop (cid # cids) d v) = fst (bonus_loop cids ?d (snd (randomInt 1 3 v)))"
    by (simp add: split_beta)
  have IH: "days_or_0 ?d c + count_list cids c \<le> days_or_0 (fst (bonus_loop cids ?d (snd (randomInt 1 3 v)))) c
     \<and> days_or_0 (fst (bonus_loop cids ?d (snd (randomInt 1 3 v)))) c \<le> days_or_0 ?d c + 3 * count_list cids c"
    by (rule Cons.IH)
  show ?case
  proof (cases "c = cid")
    case True
    then show ?thesis unfolding step using IH b by (simp add: days_or_0_upd)
  next
    case False
    then show ?thesis unfolding step using IH by (simp add: days_or_0_upd)
  qed
qed

section \<open>Properties of the vote count\<close>

text \<open>
  C3: with \<open>discardOneRandomVote\<close> unset, the vote tallies of the returned rows should
  add up to the number of pick occurrences on all ballots. They do not when a pick is
  the name of a member of \<open>Object.prototype\<close>. On one ballot with the picks \<open>u1\<close> and
  \<open>__proto__\<close> there are two pick occurrences, but the only row is that of \<open>u1\<close>, with
  one vote: the assignment to \<open>counts["__proto__"]\<close> creates no entry. On one ballot
  with the pick \<open>constructor\<close> the row's \<open>votes\<close> is not a number but a string.
\<close>

theorem computeResults_total_votes_failing:
  "rows (fst (computeResults 0 1 2 \<lparr>discardOneRandomVote = False, enableGerenteBonus = False\<rparr>
       (example_world [\<lparr>voterId = ''u11'', picks = [''u1'', ''__proto__'']\<rparr>] [] 0)))
     = [\<lparr>candidateId = ''u1'', votes = Count 1, days = 0\<rparr>]
   \<and> sum_list (map (\<lambda>v. length (picks v)) [\<lparr>voterId = ''u11'', picks = [''u1'', ''__proto__'']\<rparr>]) = 2
   \<and> rows (fst (computeResults 0 1 2 \<lparr>discardOneRandomVote = False, enableGerenteBonus = False\<rparr>
       (example_world [\<lparr>voterId = ''u11'', picks = [''constructor'']\<rparr>] [] 0)))
     = [\<lparr>candidateId = ''constructor'', votes = Inherited ''constructor'' 1, days = 0\<rparr>]"
proof -
  have "rows (fst (computeResults 0 1 2 \<lparr>discardOneRandomVote = False, enableGerenteBonus = False\<rparr>
       (example_world [\<lparr>voterId = ''u11'', picks = [''u1'', ''__proto__'']\<rparr>] [] 0)))
     = [\<lparr>candidateId = ''u1'', votes = Count 1, days = 0\<rparr>]"
    by code_simp
  moreover have "rows (fst (computeResults 0 1 2 \<lparr>discardOneRandomVote = False, enableGerenteBonus = False\<rparr>
       (example_world [\<lparr>voterId = ''u11'', picks = [''constructor'']\<rparr>] [] 0)))
     = [\<lparr>candidateId = ''constructor'', votes = Inherited ''constructor'' 1, days = 0\<rparr>]"
    by code_simp
  ultimately show ?thesis by simp
qed

text \<open>
  Where no pick is the name of a member of \<open>Object.prototype\<close>, the tally is sound:
  every \<open>votes\<close> is a number, and the numbers add up to the sum of the lengths of the
  pick lists, a candidate listed twice on one ballot being counted twice.
\<close>

lemma total_votes_plain_picks:
  assumes "\<not> discardOneRandomVote options" and "plain_picks (votes_mem w votes')"
  shows "list_all is_count (map votes (rows (fst (computeResults nominations votes' users options w))))
         \<and> sum_list (map (\<lambda>r. the_count (votes r))
                (rows (fst (computeResults nominations votes' users options w))))
           = sum_list (map (\<lambda>v. length (picks v)) (votes_mem w votes'))"
proof -
  have "fst (discard_step (discardOneRandomVote options) (votes_mem w votes') (snd (findGerenteId users w)))
        = votes_mem w votes'"
    using assms(1) by (simp add: discard_step_off)
  then obtain v where "map votes (rows (fst (computeResults nominations votes' users options w)))
        = map votes (ranked_rows v (votes_mem w votes'))"
    unfolding computeResults_rows award_rows by (simp only: map_idx_votes)
  then have "map votes (rows (fst (computeResults nominations votes' users options w)))
        = map votes (ranked_rows w (votes_mem w votes'))"
    using ranked_rows_plain(1) [OF assms(2)] by simp
  then have e: "map votes (rows (fst (computeResults nominations votes' users options w)))
        = map votes (ranked_rows w (votes_mem w votes'))" .
  have split: "map (\<lambda>r. the_count (votes r)) rs = map the_count (map votes rs)" for rs :: "ResultRow list"
    by (simp add: comp_def)
  have "sum_list (map (\<lambda>r. the_count (votes r)) (rows (fst (computeResults nominations votes' users options w))))
        = sum_list (map (\<lambda>v. length (picks v)) (votes_mem w votes'))"
    unfolding split e
    using sum_votes_ranked [OF assms(2), of w] unfolding split length_concat_picks .
  then show ?thesis
    unfolding e using ranked_rows_plain(2) [OF assms(2), of w] by (rule conjI [rotated])
qed

text \<open>
  C6: with \<open>discardOneRandomVote\<close> set and a ballot array that is not empty, the draw
  selects an index \<open>idx\<close> of the array, \<open>discardedVoterId\<close> is the voter of the ballot at
  \<open>idx\<close>, and the rows are those that \<open>computeResults\<close> returns without a discard for
  the array with exactly that ballot removed (after the one draw already made): the
  ballot takes no part in the tally, the ranking or the day awards. With an empty
  ballot array nothing is discarded, \<open>discardedVoterId\<close> is unset and the result is that
  of the call without a discard.
\<close>

theorem computeResults_discard:
  "(votes_mem w votes' \<noteq> [] \<longrightarrow>
      (let vs = votes_mem w votes';
           idx = unat (entropy w (drawn w)) mod length vs;
           res = fst (computeResults nominations votes' users (options\<lparr>discardOneRandomVote := True\<rparr>) w)
       in idx < length vs
          \<and> discardedVoterId res = Some (voterId (vs ! idx))
          \<and> rows res = rows (fst (computeResults nominations votes' users
                 (options\<lparr>discardOneRandomVote := False\<rparr>)
                 (w\<lparr>votes_mem := (votes_mem w)(votes' := take idx vs @ drop (Suc idx) vs),
                    drawn := drawn w + 1\<rparr>)))))
   \<and> (votes_mem w votes' = [] \<longrightarrow>
        discardedVoterId (fst (computeResults nominations votes' users (options\<lparr>discardOneRandomVote := True\<rparr>) w)) = None
        \<and> computeResults nominations votes' users (options\<lparr>discardOneRandomVote := True\<rparr>) w
          = computeResults nominations votes' users (options\<lparr>discardOneRandomVote := False\<rparr>) w)"
proof (intro conjI impI)
  assume ne: "votes_mem w votes' \<noteq> []"
  let ?vs = "votes_mem w votes'"
  let ?idx = "unat (entropy w (drawn w)) mod length ?vs"
  let ?w' = "w\<lparr>votes_mem := (votes_mem w)(votes' := take ?idx ?vs @ drop (Suc ?idx) ?vs),
                drawn := drawn w + 1\<rparr>"
  have idx: "?idx < length ?vs" using ne by simp
  have g: "fst (findGerenteId users ?w') = fst (findGerenteId users w)"
    by (cases "GERENTE_CACHE w users") (simp_all add: findGerenteId_def Let_def)
  have d: "drawn (snd (findGerenteId users ?w')) = drawn w + 1"
          "entropy (snd (findGerenteId users ?w')) = entropy w"
    by (simp_all add: findGerenteId_frame)
  have w1: "snd (findGerenteId users ?w') = (snd (findGerenteId users w))
      \<lparr>votes_mem := (votes_mem w)(votes' := take ?idx ?vs @ drop (Suc ?idx) ?vs), drawn := drawn w + 1\<rparr>"
    by (cases "GERENTE_CACHE w users") (simp_all add: findGerenteId_def Let_def)
  have ds: "discard_step True ?vs (snd (findGerenteId users w))
     = (take ?idx ?vs @ drop (Suc ?idx) ?vs, Some (voterId (?vs ! ?idx)),
        (snd (findGerenteId users w))\<lparr>drawn := drawn w + 1\<rparr>)"
    using discard_step_on [OF ne, of "snd (findGerenteId users w)"]
    by (simp add: findGerenteId_frame)
  let ?U = "take ?idx ?vs @ drop (Suc ?idx) ?vs"
  let ?g = "resolve (fst (findGerenteId users w))"
  let ?w1 = "snd (findGerenteId users w)"
  have L: "rows (fst (computeResults nominations votes' users (options\<lparr>discardOneRandomVote := True\<rparr>) w))
        = fst (award (enableGerenteBonus options) ?g ?U (?w1\<lparr>drawn := drawn w + 1\<rparr>))"
    unfolding computeResults_rows by (simp add: ds)
  have R: "rows (fst (computeResults nominations votes' users (options\<lparr>discardOneRandomVote := False\<rparr>) ?w'))
        = fst (award (enableGerenteBonus options) ?g ?U
                (?w1\<lparr>votes_mem := (votes_mem w)(votes' := ?U), drawn := drawn w + 1\<rparr>))"
    unfolding computeResults_rows g w1 by (simp add: discard_step_off)
  have "fst (award (enableGerenteBonus options) ?g ?U (?w1\<lparr>drawn := drawn w + 1\<rparr>))
      = fst (award (enableGerenteBonus options) ?g ?U
                (?w1\<lparr>votes_mem := (votes_mem w)(votes' := ?U), drawn := drawn w + 1\<rparr>))"
    by (rule award_cong) simp_all
  with L R have rows_eq:
    "rows (fst (computeResults nominations votes' users (options\<lparr>discardOneRandomVote := True\<rparr>) w))
     = rows (fst (computeResults nominations votes' users (options\<lparr>discardOneRandomVote := False\<rparr>) ?w'))"
    by simp
  have disc: "discardedVoterId (fst (computeResults nominations votes' users (options\<lparr>discardOneRandomVote := True\<rparr>) w))
     = Some (voterId (?vs ! ?idx))"
    unfolding computeResults_discarded by (simp add: ds)
  show "let vs = votes_mem w votes';
           idx = unat (entropy w (drawn w)) mod length vs;
           res = fst (computeResults nominations votes' users (options\<lparr>discardOneRandomVote := True\<rparr>) w)
       in idx < length vs
          \<and> discardedVoterId res = Some (voterId (vs ! idx))
          \<and> rows res = rows (fst (computeResults nominations votes' users
                 (options\<lparr>discardOneRandomVote := False\<rparr>)
                 (w\<lparr>votes_mem := (votes_mem w)(votes' := take idx vs @ drop (Suc idx) vs),
                    drawn := drawn w + 1\<rparr>)))"
    unfolding Let_def by (intro conjI idx disc rows_eq)
next
  assume e: "votes_mem w votes' = []"
  show "discardedVoterId (fst (computeResults nominations votes' users (options\<lparr>discardOneRandomVote := True\<rparr>) w)) = None"
    by (simp add: computeResults_discarded e discard_step_empty)
  show "computeResults nominations votes' users (options\<lparr>discardOneRandomVote := True\<rparr>) w
          = computeResults nominations votes' users (options\<lparr>discardOneRandomVote := False\<rparr>) w"
    unfolding computeResults_def split_beta Let_def findGerenteId_frame e discard_step_empty by simp
qed

theorem computeResults_discard_witness:
  "(let w = example_world [\<lparr>voterId = ''u11'', picks = [''u1'']\<rparr>,
                           \<lparr>voterId = ''u12'', picks = [''u2'']\<rparr>,
                           \<lparr>voterId = ''u14'', picks = [''u1'']\<rparr>,
                           \<lparr>voterId = ''u15'', picks = [''u1'']\<rparr>] [] 6;
        res = fst (computeResults 0 1 2 \<lparr>discardOneRandomVote = True, enableGerenteBonus = False\<rparr> w)
    in discardedVoterId res = Some ''u14''
       \<and> rows res = [\<lparr>candidateId = ''u1'', votes = Count 2, days = 1\<rparr>,
                      \<lparr>candidateId = ''u2'', votes = Count 1, days = 0\<rparr>])
   \<and> discardedVoterId (fst (computeResults 0 1 2
         \<lparr>discardOneRandomVote = True, enableGerenteBonus = False\<rparr> (example_world [] [] 6))) = None"
proof -
  let ?vs = "[\<lparr>voterId = ''u11'', picks = [''u1'']\<rparr>, \<lparr>voterId = ''u12'', picks = [''u2'']\<rparr>,
              \<lparr>voterId = ''u14'', picks = [''u1'']\<rparr>, \<lparr>voterId = ''u15'', picks = [''u1'']\<rparr>]"
  let ?o = "\<lparr>discardOneRandomVote = True, enableGerenteBonus = False\<rparr>"
  have r: "rows (fst (computeResults 0 1 2 \<lparr>discardOneRandomVote = False, enableGerenteBonus = False\<rparr>
             ((example_world ?vs [] 6)\<lparr>votes_mem := (votes_mem (example_world ?vs [] 6))
                  (1 := [\<lparr>voterId = ''u11'', picks = [''u1'']\<rparr>, \<lparr>voterId = ''u12'', picks = [''u2'']\<rparr>,
                         \<lparr>voterId = ''u15'', picks = [''u1'']\<rparr>]), drawn := 1\<rparr>)))
           = [\<lparr>candidateId = ''u1'', votes = Count 2, days = 1\<rparr>, \<lparr>candidateId = ''u2'', votes = Count 1, days = 0\<rparr>]"
    by code_simp
  have a: "discardedVoterId (fst (computeResults 0 1 2 ?o (example_world ?vs [] 6))) = Some ''u14''
       \<and> rows (fst (computeResults 0 1 2 ?o (example_world ?vs [] 6)))
           = [\<lparr>candidateId = ''u1'', votes = Count 2, days = 1\<rparr>, \<lparr>candidateId = ''u2'', votes = Count 1, days = 0\<rparr>]"
    using computeResults_discard [of "example_world ?vs [] 6" 1 0 2 ?o] r
    unfolding Let_def by (simp add: example_world_def)
  have e: "votes_mem (example_world [] [] 6) 1 = []" by (simp add: example_world_def)
  with computeResults_discard [of "example_world [] [] 6" 1 0 2 ?o]
  have "discardedVoterId (fst (computeResults 0 1 2 (?o\<lparr>discardOneRandomVote := True\<rparr>)
          (example_world [] [] 6))) = None"
    by blast
  then have b: "discardedVoterId (fst (computeResults 0 1 2 ?o (example_world [] [] 6))) = None"
    by simp
  show ?thesis unfolding Let_def using a b by blast
qed

text \<open>
  C2, as the spec states it, on a roster where a member matching by title only
  (\<open>u12\<close>, a Jefatura with the title CIO) stands before a member whose role is Gerente
  (\<open>u15\<close>): the lookup returns \<open>u12\<close>, not the member matching by role.
\<close>

theorem findGerenteId_title_first_counterexample:
  "fst (findGerenteId 2 (example_world [] [example_user ''u12'' Jefatura ''CIO'', example_user ''u15'' Gerente ''Gerente TI''] 0))
     = Some ''u12''
   \<and> fst (findGerenteId 2 (example_world [] [example_user ''u12'' Jefatura ''CIO'', example_user ''u15'' Gerente ''Gerente TI''] 0))
     \<noteq> Some ''u15''"
  by (simp add: findGerenteId_def Let_def example_world_def example_user_def)

text \<open>
  C2 (amended): on a roster array that was not looked up before, \<open>findGerenteId\<close>
  returns the id of the first member, in roster order, whose role is Gerente or whose
  title is CIO, with no precedence of the role over the title, and \<open>undefined\<close> when no
  member matches; a member matching by role is selected exactly when no member before
  it matches by role or by title. On a roster array that was looked up before, it
  returns the memoised result.
\<close>

theorem findGerenteId_first_match:
  "(GERENTE_CACHE w users = None \<longrightarrow>
      (case fst (findGerenteId users w) of
         None \<Rightarrow> list_all (\<lambda>u. \<not> matches_gerente u) (users_mem w users)
       | Some g \<Rightarrow>
           (\<exists>i < length (users_mem w users).
               g = id' (users_mem w users ! i) \<and> matches_gerente (users_mem w users ! i)
               \<and> (\<forall>j < i. \<not> matches_gerente (users_mem w users ! j)))))
   \<and> (\<forall>cached. GERENTE_CACHE w users = Some cached \<longrightarrow> fst (findGerenteId users w) = cached)"
proof (intro conjI impI allI)
  assume miss: "GERENTE_CACHE w users = None"
  let ?us = "users_mem w users"
  let ?P = "\<lambda>u. role u = Gerente \<or> title u = ''CIO''"
  have r: "fst (findGerenteId users w) = map_option id' (find ?P ?us)"
    by (simp add: findGerenteId_miss [OF miss])
  show "case fst (findGerenteId users w) of
         None \<Rightarrow> list_all (\<lambda>u. \<not> matches_gerente u) ?us
       | Some g \<Rightarrow>
           (\<exists>i < length ?us.
               g = id' (?us ! i) \<and> matches_gerente (?us ! i)
               \<and> (\<forall>j < i. \<not> matches_gerente (?us ! j)))"
  proof (cases "find ?P ?us")
    case None
    then have "\<forall>u \<in> set ?us. \<not> ?P u" by (simp add: find_None_iff)
    then show ?thesis by (simp add: r None list_all_iff matches_gerente_def)
  next
    case (Some u)
    then obtain i where "i < length ?us" "?P (?us ! i)" "u = ?us ! i" "\<forall>j < i. \<not> ?P (?us ! j)"
      unfolding find_Some_iff by blast
    then show ?thesis unfolding r Some matches_gerente_def by auto
  qed
next
  fix cached
  assume "GERENTE_CACHE w users = Some cached"
  then show "fst (findGerenteId users w) = cached" by (simp add: findGerenteId_hit)
qed

theorem findGerenteId_first_match_witness:
  "fst (findGerenteId 2 (example_world [] [example_user ''u12'' Jefatura ''PO'', example_user ''u15'' Gerente ''CIO'', example_user ''u16'' Gerente ''X''] 0))
     = Some ''u15''"
  using findGerenteId_first_match [of "example_world [] [example_user ''u12'' Jefatura ''PO'', example_user ''u15'' Gerente ''CIO'', example_user ''u16'' Gerente ''X''] 0" 2]
  by (simp add: findGerenteId_def Let_def example_world_def example_user_def)

text \<open>
  C9: with both randomized features disabled, a second call of \<open>computeResults\<close> on
  the same arguments, made in the world the first call left, returns the same rows;
  \<open>discardedVoterId\<close> is unset in both; neither call draws a random value; and the
  result does not depend on the random source at all.
\<close>

theorem computeResults_deterministic:
  "(let opts = \<lparr>discardOneRandomVote = False, enableGerenteBonus = False\<rparr>;
        first = computeResults nominations votes' users opts w;
        second = computeResults nominations votes' users opts (snd first)
    in rows (fst second) = rows (fst first)
       \<and> discardedVoterId (fst first) = None \<and> discardedVoterId (fst second) = None
       \<and> drawn (snd first) = drawn w \<and> drawn (snd second) = drawn w)
   \<and> fst (computeResults nominations votes' users
            \<lparr>discardOneRandomVote = False, enableGerenteBonus = False\<rparr> (w\<lparr>entropy := e, drawn := d\<rparr>))
     = fst (computeResults nominations votes' users
            \<lparr>discardOneRandomVote = False, enableGerenteBonus = False\<rparr> w)"
proof -
  let ?o = "\<lparr>discardOneRandomVote = False, enableGerenteBonus = False\<rparr>"
  let ?w1 = "snd (findGerenteId users w)"
  have run: "computeResults nominations votes' users ?o v =
      (\<lparr>rows = fst (award False (resolve (fst (findGerenteId users v))) (votes_mem v votes') (snd (findGerenteId users v))),
        discardedVoterId = None\<rparr>, snd (findGerenteId users v))" for v
    unfolding computeResults_def split_beta Let_def findGerenteId_frame
    by (simp add: discard_step_off award_world apply_bonus_off)
  have aw: "fst (award False g vs v) = fst (award False g vs v')"
    if "engine_sort v = engine_sort v'" for g vs v v'
    unfolding award_rows apply_bonus_off fst_conv ranked_rows_cong [OF that] by (rule refl)
  have es: "engine_sort (snd (findGerenteId users (w\<lparr>entropy := e, drawn := d\<rparr>)))
        = engine_sort (snd (findGerenteId users w))"
    by (simp add: findGerenteId_frame)
  have second: "findGerenteId users ?w1 = findGerenteId users w"
    by (rule findGerenteId_again)
  have e: "fst (findGerenteId users (w\<lparr>entropy := e, drawn := d\<rparr>)) = fst (findGerenteId users w)"
    by (cases "GERENTE_CACHE w users") (simp_all add: findGerenteId_def Let_def)
  have "fst (computeResults nominations votes' users ?o (w\<lparr>entropy := e, drawn := d\<rparr>))
        = fst (computeResults nominations votes' users ?o w)"
    unfolding run e using aw [OF es] by simp
  moreover have "rows (fst (computeResults nominations votes' users ?o (snd (computeResults nominations votes' users ?o w))))
      = rows (fst (computeResults nominations votes' users ?o w))"
    unfolding run snd_conv fst_conv second by (simp add: findGerenteId_frame)
  moreover have "drawn (snd (computeResults nominations votes' users ?o v)) = drawn v" for v
    unfolding run by (simp add: findGerenteId_frame)
  moreover have "drawn (snd (computeResults nominations votes' users ?o (snd (computeResults nominations votes' users ?o w)))) = drawn w"
    unfolding run snd_conv second by (simp add: findGerenteId_frame)
  ultimately show ?thesis unfolding Let_def by (simp add: run)
qed

theorem computeResults_deterministic_witness:
  "(let opts = \<lparr>discardOneRandomVote = False, enableGerenteBonus = False\<rparr>;
        w = example_world [\<lparr>voterId = ''u11'', picks = [''u1'', ''u2'']\<rparr>,
                           \<lparr>voterId = ''u15'', picks = [''u2'']\<rparr>] [example_user ''u15'' Gerente ''CIO''] 5;
        first = computeResults 0 1 2 opts w;
        second = computeResults 0 1 2 opts (snd first)
    in rows (fst second) = rows (fst first)
       \<and> rows (fst first) = [\<lparr>candidateId = ''u2'', votes = Count 2, days = 1\<rparr>,
                              \<lparr>candidateId = ''u1'', votes = Count 1, days = 0\<rparr>])"
proof -
  have "rows (fst (computeResults 0 1 2 \<lparr>discardOneRandomVote = False, enableGerenteBonus = False\<rparr>
          (example_world [\<lparr>voterId = ''u11'', picks = [''u1'', ''u2'']\<rparr>,
                           \<lparr>voterId = ''u15'', picks = [''u2'']\<rparr>] [example_user ''u15'' Gerente ''CIO''] 5)))
        = [\<lparr>candidateId = ''u2'', votes = Count 2, days = 1\<rparr>,
           \<lparr>candidateId = ''u1'', votes = Count 1, days = 0\<rparr>]"
    by code_simp
  then show ?thesis
    using computeResults_deterministic [of 0 1 2
      "example_world [\<lparr>voterId = ''u11'', picks = [''u1'', ''u2'']\<rparr>,
                           \<lparr>voterId = ''u15'', picks = [''u2'']\<rparr>] [example_user ''u15'' Gerente ''CIO''] 5"]
    unfolding Let_def by simp
qed

text \<open>
  C10, as the spec states it, on a roster array that was not looked up before, with
  both randomized features disabled: no random value is drawn, and yet the world after
  the call is not the world before it, because the call has written the roster's entry
  of \<open>GERENTE_CACHE\<close>.
\<close>

theorem computeResults_cache_counterexample:
  "(let w = example_world [] [example_user ''u15'' Gerente ''CIO''] 0;
        w' = snd (computeResults 0 1 2 \<lparr>discardOneRandomVote = False, enableGerenteBonus = False\<rparr> w)
    in drawn w' = drawn w \<and> w' \<noteq> w
       \<and> GERENTE_CACHE w 2 = None \<and> GERENTE_CACHE w' 2 = Some (Some ''u15''))"
proof -
  let ?w = "example_world [] [example_user ''u15'' Gerente ''CIO''] 0"
  let ?w' = "snd (computeResults 0 1 2 \<lparr>discardOneRandomVote = False, enableGerenteBonus = False\<rparr> ?w)"
  have a: "GERENTE_CACHE ?w 2 = None" by (simp add: example_world_def)
  have b: "GERENTE_CACHE ?w' 2 = Some (Some ''u15'')"
    by (simp add: computeResults_world award_world apply_bonus_off discard_step_off
        findGerenteId_def Let_def example_world_def example_user_def)
  have c: "drawn ?w' = drawn ?w"
    by (simp add: computeResults_world award_world apply_bonus_off discard_step_off findGerenteId_frame)
  from a b have "?w' \<noteq> ?w" by auto
  with a b c show ?thesis unfolding Let_def by blast
qed

text \<open>
  C10 (amended): \<open>computeResults\<close> leaves the nomination, ballot and roster arrays
  as they were (pick lists included) and the random source too, apart from the number
  of values drawn, which can only grow. Its one other effect is on \<open>GERENTE_CACHE\<close>:
  the first call for a roster array adds the entry of that array, the id that
  \<open>findGerenteId\<close> returned; every other entry, and the whole cache on a later call,
  is unchanged.
\<close>

theorem computeResults_frame:
  "(let w' = snd (computeResults nominations votes' users options w)
    in nominations_mem w' = nominations_mem w \<and> votes_mem w' = votes_mem w
       \<and> users_mem w' = users_mem w \<and> entropy w' = entropy w \<and> drawn w \<le> drawn w'
       \<and> GERENTE_CACHE w' =
            (case GERENTE_CACHE w users of
               Some cached \<Rightarrow> GERENTE_CACHE w
             | None \<Rightarrow> (GERENTE_CACHE w)(users \<mapsto> fst (findGerenteId users w))))"
proof -
  obtain k where k: "snd (computeResults nominations votes' users options w)
       = (snd (findGerenteId users w))\<lparr>drawn := drawn w + k\<rparr>"
    using computeResults_world_shape by blast
  have c: "GERENTE_CACHE (snd (findGerenteId users w)) =
            (case GERENTE_CACHE w users of
               Some cached \<Rightarrow> GERENTE_CACHE w
             | None \<Rightarrow> (GERENTE_CACHE w)(users \<mapsto> fst (findGerenteId users w)))"
    by (cases "GERENTE_CACHE w users") (simp_all add: findGerenteId_def Let_def)
  show ?thesis unfolding Let_def k by (simp add: findGerenteId_frame c)
qed

theorem computeResults_frame_witness:
  "(let w = example_world [\<lparr>voterId = ''u15'', picks = [''u1'']\<rparr>] [example_user ''u15'' Gerente ''CIO''] 5;
        w' = snd (computeResults 0 1 2 \<lparr>discardOneRandomVote = True, enableGerenteBonus = True\<rparr> w)
    in votes_mem w' = votes_mem w \<and> users_mem w' = users_mem w
       \<and> GERENTE_CACHE w' = [2 \<mapsto> Some ''u15''])"
  using computeResults_frame [of 0 1 2 "\<lparr>discardOneRandomVote = True, enableGerenteBonus = True\<rparr>"
      "example_world [\<lparr>voterId = ''u15'', picks = [''u1'']\<rparr>] [example_user ''u15'' Gerente ''CIO''] 5"]
  by (simp add: Let_def findGerenteId_def example_world_def example_user_def)




text \<open>
  C5, as the spec states it, on the roster of \<open>u12\<close>, of role Jefatura and title CIO,
  followed by \<open>u15\<close>, of role Gerente, and three counted ballots, of \<open>u11\<close>, \<open>u14\<close> and
  \<open>u15\<close>, each naming \<open>u1\<close>: the roster member whose role is Gerente is among the three
  distinct voters of \<open>u1\<close>, for which the spec's table gives 3 days, and the row of \<open>u1\<close>
  carries 2 days, since the lookup of \<open>computeResults\<close> resolved \<open>u12\<close>.
\<close>

theorem computeResults_base_days_counterexample:
  "(let vs = [\<lparr>voterId = ''u11'', picks = [''u1'']\<rparr>,
              \<lparr>voterId = ''u14'', picks = [''u1'']\<rparr>,
              \<lparr>voterId = ''u15'', picks = [''u1'']\<rparr>];
        us = [example_user ''u12'' Jefatura ''CIO'', example_user ''u15'' Gerente ''Gerente TI''];
        w = example_world vs us 4;
        rs = rows (fst (computeResults 0 1 2 \<lparr>discardOneRandomVote = False, enableGerenteBonus = False\<rparr> w))
    in map id' (filter (\<lambda>u. role u = Gerente) us) = [''u15'']
       \<and> spec_voters vs ''u1'' = {''u11'', ''u14'', ''u15''}
       \<and> spec_base_days (card (spec_voters vs ''u1'')) (''u15'' \<in> spec_voters vs ''u1'') = 3
       \<and> fst (findGerenteId 2 w) = Some ''u12''
       \<and> rs = [\<lparr>candidateId = ''u1'', votes = Count 3, days = 2\<rparr>])"
proof -
  let ?vs = "[\<lparr>voterId = ''u11'', picks = [''u1'']\<rparr>,
              \<lparr>voterId = ''u14'', picks = [''u1'']\<rparr>,
              \<lparr>voterId = ''u15'', picks = [''u1'']\<rparr>]"
  let ?us = "[example_user ''u12'' Jefatura ''CIO'', example_user ''u15'' Gerente ''Gerente TI'']"
  let ?w = "example_world ?vs ?us 4"
  have r: "rows (fst (computeResults 0 1 2 \<lparr>discardOneRandomVote = False, enableGerenteBonus = False\<rparr> ?w))
     = [\<lparr>candidateId = ''u1'', votes = Count 3, days = 2\<rparr>]"
    by code_simp
  have g: "fst (findGerenteId 2 ?w) = Some ''u12''"
    by code_simp
  have f: "map id' (filter (\<lambda>u. role u = Gerente) ?us) = [''u15'']"
    by (simp add: example_user_def)
  have "{v \<in> set ?vs. ''u1'' \<in> set (picks v)} = set ?vs" by auto
  then have v: "spec_voters ?vs ''u1'' = {''u11'', ''u14'', ''u15''}"
    unfolding spec_voters_def by simp
  have c: "card {''u11'', ''u14'', ''u15''} = 3" by simp
  have d: "spec_base_days (card (spec_voters ?vs ''u1'')) (''u15'' \<in> spec_voters ?vs ''u1'') = 3"
    unfolding v c by (simp add: spec_base_days_def)
  show ?thesis unfolding Let_def using r g f v d by simp
qed

text \<open>
  C5 (amended): without the bonus, each of the first three rows carries the day award
  of the spec's table for the number of distinct voters, among the counted ballots,
  whose pick list includes the candidate, and for whether the id that \<open>computeResults\<close>
  resolved as the Gerente is among them (0 or 1 voter: 0 days; 2 voters: 1 day; 3 or
  more: 2 days when the resolved id is not among them and 3 when it is); every further
  row carries 0. The resolved id is the one returned by \<open>findGerenteId\<close>, that of the
  first roster member whose role is Gerente or whose title is CIO, and there is none
  when no member matches or when that id is the empty string: a member of role Gerente
  that the lookup did not resolve counts as any other voter.
\<close>

theorem computeResults_base_days:
  "(let usedVotes = fst (discard_step (discardOneRandomVote options) (votes_mem w votes') w);
        gerente = resolve (fst (findGerenteId users w));
        rs = rows (fst (computeResults nominations votes' users (options\<lparr>enableGerenteBonus := False\<rparr>) w))
    in \<forall>i < length rs.
         days (rs ! i) =
           (if i < 3
            then spec_base_days (card (spec_voters usedVotes (candidateId (rs ! i))))
                   (case gerente of None \<Rightarrow> False
                    | Some g \<Rightarrow> g \<in> spec_voters usedVotes (candidateId (rs ! i)))
            else 0))"
proof -
  let ?used = "fst (discard_step (discardOneRandomVote options) (votes_mem w votes') w)"
  let ?g = "resolve (fst (findGerenteId users w))"
  let ?rs = "rows (fst (computeResults nominations votes' users (options\<lparr>enableGerenteBonus := False\<rparr>) w))"
  obtain v where rs: "?rs = fst (award False ?g ?used v)"
    unfolding computeResults_rows discard_step_used by simp
  let ?rk = "ranked_rows v ?used"
  have "days (?rs ! i) =
           (if i < 3
            then spec_base_days (card (spec_voters ?used (candidateId (?rs ! i))))
                   (case ?g of None \<Rightarrow> False
                    | Some g \<Rightarrow> g \<in> spec_voters ?used (candidateId (?rs ! i)))
            else 0)" if "i < length ?rs" for i
  proof -
    have i: "i < length ?rk" using that by (simp add: rs award_length)
    have nth: "?rs ! i = (?rk ! i)\<lparr>days := (if i < 3 then days_or_0
          (base_days ?g ?used (take 3 ?rk)) (candidateId (?rk ! i)) else 0)\<rparr>"
      unfolding rs rows_nth [OF i] apply_bonus_off fst_conv by (rule refl)
    have cid: "candidateId (?rs ! i) = candidateId (?rk ! i)"
      unfolding nth by simp
    have d: "days (?rs ! i) = (if i < 3 then days_or_0
          (base_days ?g ?used (take 3 ?rk)) (candidateId (?rk ! i)) else 0)"
      unfolding nth by simp
    show ?thesis
    proof (cases "i < 3")
      case True
      then have "?rk ! i \<in> set (take 3 ?rk)" using i by (rule nth_in_take)
      then show ?thesis
        unfolding cid d using True by (simp add: base_days_lookup days_of_spec)
    next
      case False
      then show ?thesis unfolding d by simp
    qed
  qed
  then show ?thesis unfolding Let_def by blast
qed

theorem computeResults_base_days_witness:
  "(let vs = [\<lparr>voterId = ''u11'', picks = [''u1'', ''u2'']\<rparr>,
              \<lparr>voterId = ''u14'', picks = [''u1'', ''u2'']\<rparr>,
              \<lparr>voterId = ''u15'', picks = [''u1'']\<rparr>,
              \<lparr>voterId = ''u12'', picks = [''u3'', ''u6'']\<rparr>];
        w = example_world vs [example_user ''u15'' Gerente ''CIO''] 4;
        rs = rows (fst (computeResults 0 1 2 \<lparr>discardOneRandomVote = False, enableGerenteBonus = False\<rparr> w))
    in map candidateId rs = [''u1'', ''u2'', ''u3'', ''u6''] \<and> map days rs = [3, 1, 0, 0]
       \<and> days (rs ! 0) = spec_base_days (card (spec_voters vs ''u1'')) (''u15'' \<in> spec_voters vs ''u1''))"
proof -
  let ?vs = "[\<lparr>voterId = ''u11'', picks = [''u1'', ''u2'']\<rparr>,
              \<lparr>voterId = ''u14'', picks = [''u1'', ''u2'']\<rparr>,
              \<lparr>voterId = ''u15'', picks = [''u1'']\<rparr>,
              \<lparr>voterId = ''u12'', picks = [''u3'', ''u6'']\<rparr>]"
  let ?w = "example_world ?vs [example_user ''u15'' Gerente ''CIO''] 4"
  let ?o = "\<lparr>discardOneRandomVote = False, enableGerenteBonus = False\<rparr>"
  have r: "rows (fst (computeResults 0 1 2 ?o ?w))
     = [\<lparr>candidateId = ''u1'', votes = Count 3, days = 3\<rparr>, \<lparr>candidateId = ''u2'', votes = Count 2, days = 1\<rparr>,
        \<lparr>candidateId = ''u3'', votes = Count 1, days = 0\<rparr>, \<lparr>candidateId = ''u6'', votes = Count 1, days = 0\<rparr>]"
    by code_simp
  have u: "fst (discard_step (discardOneRandomVote ?o) (votes_mem ?w 1) ?w) = ?vs"
    by (simp add: discard_step_off example_world_def)
  have g: "resolve (fst (findGerenteId 2 ?w)) = Some ''u15''"
    by code_simp
  have o: "?o\<lparr>enableGerenteBonus := False\<rparr> = ?o" by simp
  note t = computeResults_base_days [of ?o ?w 1 2 0, unfolded Let_def u g o r, rule_format, of 0]
  have "days (rows (fst (computeResults 0 1 2 ?o ?w)) ! 0)
        = spec_base_days (card (spec_voters ?vs ''u1'')) (''u15'' \<in> spec_voters ?vs ''u1'')"
    unfolding r using t by simp
  then show ?thesis unfolding Let_def r by simp
qed

text \<open>
  C1, as the spec states it, on three ballots that put \<open>u1\<close>, \<open>u2\<close> and \<open>u3\<close> in
  the first three rows, with the bonus enabled and the ballot of the Gerente \<open>u15\<close>,
  which is counted, naming \<open>u6\<close> alone: \<open>u6\<close> is in the fourth row, and its final
  day award is 0, not the bonus.
\<close>

theorem computeResults_bonus_counterexample:
  "(let w = example_world [\<lparr>voterId = ''u11'', picks = [''u1'', ''u2'', ''u3'']\<rparr>,
                           \<lparr>voterId = ''u14'', picks = [''u1'', ''u2'', ''u3'']\<rparr>,
                           \<lparr>voterId = ''u15'', picks = [''u6'']\<rparr>]
                          [example_user ''u15'' Gerente ''CIO''] 4;
        rs = rows (fst (computeResults 0 1 2 \<lparr>discardOneRandomVote = False, enableGerenteBonus = True\<rparr> w))
    in fst (findGerenteId 2 w) = Some ''u15'' \<and> length rs = 4
       \<and> candidateId (rs ! 3) = ''u6'' \<and> days (rs ! 3) = 0)"
proof -
  let ?w = "example_world [\<lparr>voterId = ''u11'', picks = [''u1'', ''u2'', ''u3'']\<rparr>,
                           \<lparr>voterId = ''u14'', picks = [''u1'', ''u2'', ''u3'']\<rparr>,
                           \<lparr>voterId = ''u15'', picks = [''u6'']\<rparr>]
                          [example_user ''u15'' Gerente ''CIO''] 4"
  have r: "rows (fst (computeResults 0 1 2 \<lparr>discardOneRandomVote = False, enableGerenteBonus = True\<rparr> ?w))
     = [\<lparr>candidateId = ''u1'', votes = Count 2, days = 1\<rparr>, \<lparr>candidateId = ''u2'', votes = Count 2, days = 1\<rparr>,
        \<lparr>candidateId = ''u3'', votes = Count 2, days = 1\<rparr>, \<lparr>candidateId = ''u6'', votes = Count 1, days = 0\<rparr>]"
    by code_simp
  have g: "fst (findGerenteId 2 ?w) = Some ''u15''"
    by code_simp
  show ?thesis unfolding Let_def r g by simp
qed

text \<open>
  C1 (amended): when a Gerente is resolved and a counted ballot is the Gerente's,
  enabling the bonus changes neither the candidates nor the votes of the rows. In each
  of the first three rows the day award grows by a bonus between 1 and 3 for every
  occurrence of the row's candidate on the Gerente's ballot (so it is unchanged for a
  candidate who is not on that ballot). Every row after the third has a final day award
  of 0, with or without a bonus drawn for its candidate.
\<close>

theorem computeResults_bonus:
  assumes "resolve (fst (findGerenteId users w)) = Some g"
    and "find (\<lambda>v. voterId v = g)
           (fst (discard_step (discardOneRandomVote options) (votes_mem w votes') w)) = Some gerenteVote"
  shows "(let on = rows (fst (computeResults nominations votes' users (options\<lparr>enableGerenteBonus := True\<rparr>) w));
              off = rows (fst (computeResults nominations votes' users (options\<lparr>enableGerenteBonus := False\<rparr>) w))
          in length on = length off
             \<and> (\<forall>i < length on.
                   candidateId (on ! i) = candidateId (off ! i) \<and> votes (on ! i) = votes (off ! i)
                   \<and> (if i < 3
                       then days (off ! i) + count_list (picks gerenteVote) (candidateId (on ! i)) \<le> days (on ! i)
                            \<and> days (on ! i) \<le> days (off ! i) + 3 * count_list (picks gerenteVote) (candidateId (on ! i))
                       else days (on ! i) = 0)))"
proof -
  let ?used = "fst (discard_step (discardOneRandomVote options) (votes_mem w votes') w)"
  let ?on = "rows (fst (computeResults nominations votes' users (options\<lparr>enableGerenteBonus := True\<rparr>) w))"
  let ?off = "rows (fst (computeResults nominations votes' users (options\<lparr>enableGerenteBonus := False\<rparr>) w))"
  obtain v where on: "?on = fst (award True (Some g) ?used v)"
    and off: "?off = fst (award False (Some g) ?used v)"
    unfolding computeResults_rows discard_step_used assms(1) by simp
  let ?rk = "ranked_rows v ?used"
  let ?base = "base_days (Some g) ?used (take 3 ?rk)"
  have bonus: "fst (apply_bonus True (Some g) ?used ?base v) = fst (bonus_loop (picks gerenteVote) ?base v)"
    by (simp add: apply_bonus_def assms(2))
  have len: "length ?on = length ?rk" "length ?off = length ?rk"
    by (simp_all add: on off award_length)
  have "candidateId (?on ! i) = candidateId (?off ! i) \<and> votes (?on ! i) = votes (?off ! i)
                   \<and> (if i < 3
                       then days (?off ! i) + count_list (picks gerenteVote) (candidateId (?on ! i)) \<le> days (?on ! i)
                            \<and> days (?on ! i) \<le> days (?off ! i) + 3 * count_list (picks gerenteVote) (candidateId (?on ! i))
                       else days (?on ! i) = 0)" if "i < length ?on" for i
  proof -
    have i: "i < length ?rk" using that len by simp
    have n1: "?on ! i = (?rk ! i)\<lparr>days := (if i < 3 then days_or_0
          (fst (bonus_loop (picks gerenteVote) ?base v)) (candidateId (?rk ! i)) else 0)\<rparr>"
      unfolding on rows_nth [OF i] bonus by (rule refl)
    have n0: "?off ! i = (?rk ! i)\<lparr>days := (if i < 3 then days_or_0 ?base (candidateId (?rk ! i)) else 0)\<rparr>"
      unfolding off rows_nth [OF i] apply_bonus_off fst_conv by (rule refl)
    show ?thesis
      unfolding n1 n0
      using bonus_loop_bounds [of ?base "candidateId (?rk ! i)" "picks gerenteVote" v]
      by simp
  qed
  then have all: "\<forall>i < length ?on.
                   candidateId (?on ! i) = candidateId (?off ! i) \<and> votes (?on ! i) = votes (?off ! i)
                   \<and> (if i < 3
                       then days (?off ! i) + count_list (picks gerenteVote) (candidateId (?on ! i)) \<le> days (?on ! i)
                            \<and> days (?on ! i) \<le> days (?off ! i) + 3 * count_list (picks gerenteVote) (candidateId (?on ! i))
                       else days (?on ! i) = 0)"
    by blast
  have "length ?on = length ?off" using len by simp
  then show ?thesis unfolding Let_def using all by (rule conjI)
qed

theorem computeResults_bonus_witness:
  "(let w = example_world [\<lparr>voterId = ''u11'', picks = [''u1'', ''u2'']\<rparr>,
                           \<lparr>voterId = ''u15'', picks = [''u1'']\<rparr>]
                          [example_user ''u15'' Gerente ''CIO''] 4;
        on = rows (fst (computeResults 0 1 2 \<lparr>discardOneRandomVote = False, enableGerenteBonus = True\<rparr> w));
        off = rows (fst (computeResults 0 1 2 \<lparr>discardOneRandomVote = False, enableGerenteBonus = False\<rparr> w))
    in resolve (fst (findGerenteId 2 w)) = Some ''u15''
       \<and> days (off ! 0) + 1 \<le> days (on ! 0) \<and> days (on ! 0) \<le> days (off ! 0) + 3
       \<and> days (off ! 0) = 1 \<and> days (on ! 0) = 3)"
proof -
  let ?w = "example_world [\<lparr>voterId = ''u11'', picks = [''u1'', ''u2'']\<rparr>,
                           \<lparr>voterId = ''u15'', picks = [''u1'']\<rparr>]
                          [example_user ''u15'' Gerente ''CIO''] 4"
  let ?o = "\<lparr>discardOneRandomVote = False, enableGerenteBonus = True\<rparr>"
  have h1: "resolve (fst (findGerenteId 2 ?w)) = Some ''u15''"
    by code_simp
  have h2: "find (\<lambda>v. voterId v = ''u15'')
           (fst (discard_step (discardOneRandomVote ?o) (votes_mem ?w 1) ?w))
        = Some \<lparr>voterId = ''u15'', picks = [''u1'']\<rparr>"
    by (simp add: discard_step_off example_world_def)
  have on: "rows (fst (computeResults 0 1 2 \<lparr>discardOneRandomVote = False, enableGerenteBonus = True\<rparr> ?w))
     = [\<lparr>candidateId = ''u1'', votes = Count 2, days = 3\<rparr>, \<lparr>candidateId = ''u2'', votes = Count 1, days = 0\<rparr>]"
    by code_simp
  have off: "rows (fst (computeResults 0 1 2 \<lparr>discardOneRandomVote = False, enableGerenteBonus = False\<rparr> ?w))
     = [\<lparr>candidateId = ''u1'', votes = Count 2, days = 1\<rparr>, \<lparr>candidateId = ''u2'', votes = Count 1, days = 0\<rparr>]"
    by code_simp
  have o1: "?o\<lparr>enableGerenteBonus := True\<rparr> = ?o"
    and o0: "?o\<lparr>enableGerenteBonus := False\<rparr> = \<lparr>discardOneRandomVote = False, enableGerenteBonus = False\<rparr>"
    by simp_all
  note t = computeResults_bonus [OF h1 h2, of 0, unfolded Let_def o1 o0 on off, THEN conjunct2,
      rule_format, of 0]
  have "days ([\<lparr>candidateId = ''u1'', votes = Count 2, days = 1\<rparr>, \<lparr>candidateId = ''u2'', votes = Count 1, days = 0\<rparr>] ! 0) + 1
          \<le> days ([\<lparr>candidateId = ''u1'', votes = Count 2, days = 3\<rparr>, \<lparr>candidateId = ''u2'', votes = Count 1, days = 0\<rparr>] ! 0)
        \<and> days ([\<lparr>candidateId = ''u1'', votes = Count 2, days = 3\<rparr>, \<lparr>candidateId = ''u2'', votes = Count 1, days = 0\<rparr>] ! 0)
          \<le> days ([\<lparr>candidateId = ''u1'', votes = Count 2, days = 1\<rparr>, \<lparr>candidateId = ''u2'', votes = Count 1, days = 0\<rparr>] ! 0) + 3"
    using t by simp
  then show ?thesis unfolding Let_def on off using h1 by simp
qed

end
